theory Spec2Isabelle
  imports Main "HOL-Library.Sublist" "HOL-Library.AList"
begin

section \<open>Strings and the text normalizer (\<open>clean_text\<close>)\<close>

text \<open>
  Python strings are modelled as \<open>string\<close>; a character is a code point below 256.
  \<open>isspace\<close> is the whitespace class shared by the regular expression \<open>\s\<close> and by
  \<open>str.strip()\<close> (both test \<open>Py_UNICODE_ISSPACE\<close>), restricted to that range:
  code points 9 to 13, 28 to 32, 133 and 160.
\<close>

definition isspace :: "char \<Rightarrow> bool" where
  "isspace c = (of_char c \<in> set [9, 10, 11, 12, 13, 28, 29, 30, 31, 32, 133, 160 :: nat])"

text \<open>\<open>str.strip()\<close>: drop the leading and the trailing whitespace.\<close>

definition strip :: "string \<Rightarrow> string" where
  "strip s = rev (dropWhile isspace (rev (dropWhile isspace s)))"

text \<open>
  The substitution \<^verbatim>\<open>re.sub(r'<[^>]+>', ' ', text)\<close>. The scan goes left to right. At
  an opening angle bracket the pattern matches iff the longest run of characters other
  than the closing bracket that follows is not empty and is followed by a closing bracket
  (the negated class also matches the opening bracket and newlines, and no shorter run
  can be followed by a closing bracket); the match is replaced by one space and the scan
  resumes behind it. Otherwise the character is copied.
\<close>

definition tag_opens :: "string \<Rightarrow> bool" where
  "tag_opens cs = (takeWhile (\<lambda>x. x \<noteq> CHR ''>'') cs \<noteq> [] \<and> dropWhile (\<lambda>x. x \<noteq> CHR ''>'') cs \<noteq> [])"

function strip_tags :: "string \<Rightarrow> string" where
  "strip_tags [] = []"
| "strip_tags (c # cs) =
     (if c = CHR ''<'' \<and> tag_opens cs
      then CHR '' '' # strip_tags (tl (dropWhile (\<lambda>x. x \<noteq> CHR ''>'') cs))
      else c # strip_tags cs)"
  by pat_completeness auto
termination
proof (relation "measure length")
  fix c :: char and cs :: string
  have "length (tl (dropWhile (\<lambda>x. x \<noteq> CHR ''>'') cs)) \<le> length cs"
    using length_dropWhile_le [of "\<lambda>x. x \<noteq> CHR ''>''" cs] by simp
  then show "(tl (dropWhile (\<lambda>x. x \<noteq> CHR ''>'') cs), c # cs) \<in> measure length"
    by simp
qed simp_all

text \<open>\<open>re.sub(r'\s+', ' ', text)\<close>: every maximal run of whitespace becomes one space.\<close>

function collapse_ws :: "string \<Rightarrow> string" where
  "collapse_ws [] = []"
| "collapse_ws (c # cs) =
     (if isspace c then CHR '' '' # collapse_ws (dropWhile isspace cs)
      else c # collapse_ws cs)"
  by pat_completeness auto
termination
proof (relation "measure length")
  fix c :: char and cs :: string
  show "(dropWhile isspace cs, c # cs) \<in> measure length"
    using length_dropWhile_le [of isspace cs] by simp
qed simp_all

text \<open>
  \<open>text.replace(old, new)\<close> for a non-empty \<open>old\<close>: the occurrences are replaced from
  left to right, without overlap.
\<close>

function replace :: "string \<Rightarrow> string \<Rightarrow> string \<Rightarrow> string" where
  "replace old new [] = []"
| "replace old new (c # cs) =
     (if old \<noteq> [] \<and> prefix old (c # cs)
      then new @ replace old new (drop (length old) (c # cs))
      else c # replace old new cs)"
  by pat_completeness auto
termination
  by (relation "measure (\<lambda>(old, new, s). length s)") auto

text \<open>
  \<open>clean_text\<close> of CAPP.py (CASS.py and INCA.py hold the same body). The argument is a
  string here; the callers that may pass \<open>None\<close> get the empty string from the first test.
\<close>

definition clean_text :: "string \<Rightarrow> string" where
  "clean_text text0 =
     (if text0 = [] then []
      else let text1 = strip_tags text0;
               text2 = collapse_ws text1;
               text3 = replace ''&amp;'' ''&'' text2;
               text4 = replace ''&lt;'' ''<'' text3;
               text5 = replace ''&gt;'' ''>'' text4;
               text6 = replace ''&quot;'' [CHR 0x22] text5;
               text7 = replace ''&apos;'' [CHR 0x27] text6
           in strip text7)"

text \<open>The five XML escape sequences that \<open>clean_text\<close> decodes.\<close>

definition entities :: "string list" where
  "entities = [''&amp;'', ''&lt;'', ''&gt;'', ''&quot;'', ''&apos;'']"

definition has_entity :: "string \<Rightarrow> bool" where
  "has_entity s = list_ex (\<lambda>e. sublist e s) entities"


text \<open>
  Two invariants of the normalizer's output, used in the proofs: \<open>notag\<close> says that no
  position of the string starts a match of the tag pattern, \<open>wsnorm\<close> that every
  whitespace character is a single space followed by a character that is not whitespace.
\<close>

fun notag :: "string \<Rightarrow> bool" where
  "notag [] = True"
| "notag (c # cs) = ((c = CHR ''<'' \<longrightarrow> \<not> tag_opens cs) \<and> notag cs)"

fun wsnorm :: "string \<Rightarrow> bool" where
  "wsnorm [] = True"
| "wsnorm (c # cs) = ((isspace c \<longrightarrow> c = CHR '' '' \<and> (cs = [] \<or> \<not> isspace (hd cs))) \<and> wsnorm cs)"


section \<open>ElementTree: elements, iteration and paths\<close>

text \<open>
  An \<open>xml.etree.ElementTree.Element\<close>: tag, attribute dictionary, the text before the
  first child (\<open>None\<close> when there is none), the children, and the tail text that follows
  the element's end tag inside its parent.
\<close>

datatype element =
  Element (el_tag: string) (el_attrib: "(string \<times> string) list") (el_text: "string option")
    (el_children: "element list") (el_tail: "string option")

text \<open>\<open>Element.iter()\<close>: the element itself, then its descendants, in document order.\<close>

fun iter :: "element \<Rightarrow> element list" where
  "iter (Element t a x cs y) = Element t a x cs y # concat (map iter cs)"

text \<open>A text or tail is yielded only when it is truthy: neither \<open>None\<close> nor empty.\<close>

fun truthy_text :: "string option \<Rightarrow> string list" where
  "truthy_text None = []"
| "truthy_text (Some t) = (if t = [] then [] else [t])"

text \<open>
  \<open>Element.itertext()\<close>: the element's text, then for every child its own
  \<open>itertext()\<close> followed by its tail.
\<close>

fun itertext :: "element \<Rightarrow> string list" where
  "itertext (Element t a x cs y) =
     truthy_text x @ concat (map (\<lambda>c. itertext c @ truthy_text (el_tail c)) cs)"

text \<open>
  \<open>ET.tostring(elem, encoding="unicode", method="text")\<close>: the serializer writes the
  parts of \<open>itertext()\<close> and then the tail of the element itself.
\<close>

definition tostring_text :: "element \<Rightarrow> string" where
  "tostring_text e = concat (itertext e) @ concat (truthy_text (el_tail e))"

text \<open>
  The three shapes of path the scripts pass to \<open>find\<close> and \<open>findtext\<close>:
  \<^verbatim>\<open>'TAG'\<close> (a child), \<^verbatim>\<open>'.//TAG'\<close> (a descendant, the element itself excluded) and
  \<^verbatim>\<open>".//TAG[@KEY='VALUE']"\<close> (a descendant carrying that attribute value).
\<close>

datatype path = Child string | Descendant string | DescendantAttr string string string

definition descendants :: "element \<Rightarrow> element list" where
  "descendants e = concat (map iter (el_children e))"

fun iterfind :: "element \<Rightarrow> path \<Rightarrow> element list" where
  "iterfind e (Child t) = filter (\<lambda>c. el_tag c = t) (el_children e)"
| "iterfind e (Descendant t) = filter (\<lambda>d. el_tag d = t) (descendants e)"
| "iterfind e (DescendantAttr t k v) =
     filter (\<lambda>d. map_of (el_attrib d) k = Some v)
       (filter (\<lambda>d. el_tag d = t) (descendants e))"

text \<open>\<open>Element.find(path)\<close>: the first match, or \<open>None\<close>.\<close>

definition find_el :: "element \<Rightarrow> path \<Rightarrow> element option" where
  "find_el e p = (case iterfind e p of [] \<Rightarrow> None | x # xs \<Rightarrow> Some x)"

text \<open>\<open>Element.findtext(path, default)\<close>: the text of the first match (\<open>""\<close> when it has none).\<close>

definition findtext :: "element \<Rightarrow> path \<Rightarrow> string \<Rightarrow> string" where
  "findtext e p dflt =
     (case find_el e p of None \<Rightarrow> dflt
      | Some found \<Rightarrow> (case el_text found of None \<Rightarrow> [] | Some t \<Rightarrow> t))"

section \<open>Values, records, exceptions, files\<close>

text \<open>A value stored in a record: a string, or Python's \<open>None\<close>.\<close>

datatype val = Str string | PyNone

text \<open>
  A Python \<open>dict\<close> with string keys, as an association list in insertion order:
  assigning to a key that exists replaces its value in place, a new key goes to the end.
\<close>

type_synonym dict = "(string \<times> val) list"

definition setitem :: "string \<Rightarrow> val \<Rightarrow> dict \<Rightarrow> dict" where
  "setitem k v d = AList.update k v d"

text \<open>\<open>data.update({k1: v1, ...})\<close>: the assignments in the order of the literal.\<close>

definition dict_update :: "(string \<times> val) list \<Rightarrow> dict \<Rightarrow> dict" where
  "dict_update kvs d = fold (\<lambda>kv. setitem (fst kv) (snd kv)) kvs d"

definition is_str :: "val \<Rightarrow> bool" where
  "is_str v = (case v of Str s \<Rightarrow> True | PyNone \<Rightarrow> False)"

datatype exn =
  ParseError | OSError | NameError | AttributeError | ValueError | RuntimeError | SyntaxError

text \<open>
  What \<open>ET.parse\<close> meets at a path: a file it cannot read, bytes that are not well-formed
  XML, or a document with its root element.
\<close>

datatype document = Unreadable | Malformed | WellFormed element

record xml_file =
  path :: string
  content :: document

definition ET_parse :: "document \<Rightarrow> exn + element" where
  "ET_parse doc =
     (case doc of Unreadable \<Rightarrow> Inl OSError | Malformed \<Rightarrow> Inl ParseError
      | WellFormed root \<Rightarrow> Inr root)"

text \<open>Entries of the run log (or of standard output, for the script that prints).\<close>

datatype log_entry =
  ErrorParsing string exn | ErrorWritingBatch | InfoProcessed nat

text \<open>The truth value of \<open>data\<close> in \<open>if data:\<close>: neither \<open>None\<close> nor an empty dict.\<close>

fun truthy :: "dict option \<Rightarrow> bool" where
  "truthy None = False"
| "truthy (Some d) = (d \<noteq> [])"




section \<open>CAPP.py: field extraction and the document parser\<close>

text \<open>\<open>get_element_text\<close> of CAPP.py (the same in CASS.py and INCA.py).\<close>

definition get_element_text :: "element \<Rightarrow> path \<Rightarrow> string" where
  "get_element_text element p =
     (case find_el element p of None \<Rightarrow> []
      | Some found \<Rightarrow>
          (case el_text found of None \<Rightarrow> []
           | Some t \<Rightarrow> if t \<noteq> [] then clean_text t else []))"


definition capp_keys :: "string list" where
  "capp_keys = [''id'', ''ancien_id'', ''origine'', ''url'', ''nature'', ''titre'',
     ''date_decision'', ''juridiction'', ''numero'', ''solution'', ''numero_affaire'',
     ''formation'', ''siege_appel'', ''juridiction_premiere_instance'',
     ''lieu_premiere_instance'', ''president'', ''avocat_general'', ''avocats'',
     ''rapporteur'', ''contenu'', ''sommaire'']"

text \<open>The initial \<open>data\<close> literal: every key with the empty string.\<close>

definition capp_data :: dict where
  "capp_data = map (\<lambda>k. (k, Str [])) capp_keys"

text \<open>The block \<open># META_COMMUN\<close>, shared word for word by CAPP.py, CASS.py and INCA.py.\<close>

definition meta_commun_block :: "element \<Rightarrow> dict \<Rightarrow> dict" where
  "meta_commun_block root data =
     (case find_el root (Descendant ''META_COMMUN'') of None \<Rightarrow> data
      | Some meta_commun \<Rightarrow> dict_update
          [(''id'', Str (get_element_text meta_commun (Child ''ID''))),
           (''ancien_id'', Str (get_element_text meta_commun (Child ''ANCIEN_ID''))),
           (''origine'', Str (get_element_text meta_commun (Child ''ORIGINE''))),
           (''url'', Str (get_element_text meta_commun (Child ''URL''))),
           (''nature'', Str (get_element_text meta_commun (Child ''NATURE'')))] data)"

text \<open>The five fields read from a \<open>META_JURI\<close> element (CAPP.py, CASS.py, INCA.py).\<close>

definition meta_juri_fields :: "element \<Rightarrow> (string \<times> val) list" where
  "meta_juri_fields meta_juri =
     [(''titre'', Str (get_element_text meta_juri (Child ''TITRE''))),
      (''date_decision'', Str (get_element_text meta_juri (Child ''DATE_DEC''))),
      (''juridiction'', Str (get_element_text meta_juri (Child ''JURIDICTION''))),
      (''numero'', Str (get_element_text meta_juri (Child ''NUMERO''))),
      (''solution'', Str (get_element_text meta_juri (Child ''SOLUTION'')))]"

text \<open>The block \<open># META_JURI\<close> of CAPP.py and CASS.py, looked up from the root.\<close>

definition meta_juri_block :: "element \<Rightarrow> dict \<Rightarrow> dict" where
  "meta_juri_block root data =
     (case find_el root (Descendant ''META_JURI'') of None \<Rightarrow> data
      | Some meta_juri \<Rightarrow> dict_update (meta_juri_fields meta_juri) data)"

text \<open>
  The block \<open># META_JURI_JUDI\<close> of CAPP.py. \<open>numero_affaire\<close> is the raw \<open>.text\<close> of the
  element found, which is \<open>None\<close> for an element without text.
\<close>

definition capp_meta_juri_judi :: "element \<Rightarrow> dict \<Rightarrow> dict" where
  "capp_meta_juri_judi root data =
     (case find_el root (Descendant ''META_JURI_JUDI'') of None \<Rightarrow> data
      | Some meta_juri_judi \<Rightarrow> dict_update
          [(''numero_affaire'',
              (case find_el meta_juri_judi (Descendant ''NUMERO_AFFAIRE'') of
                 None \<Rightarrow> Str []
               | Some numero_affaire \<Rightarrow>
                   (case el_text numero_affaire of None \<Rightarrow> PyNone | Some t \<Rightarrow> Str t))),
           (''formation'', Str (get_element_text meta_juri_judi (Child ''FORMATION''))),
           (''siege_appel'', Str (get_element_text meta_juri_judi (Child ''SIEGE_APPEL''))),
           (''juridiction_premiere_instance'',
              Str (get_element_text meta_juri_judi (Child ''JURI_PREM''))),
           (''lieu_premiere_instance'',
              Str (get_element_text meta_juri_judi (Child ''LIEU_PREM''))),
           (''president'', Str (get_element_text meta_juri_judi (Child ''PRESIDENT''))),
           (''avocat_general'', Str (get_element_text meta_juri_judi (Child ''AVOCAT_GL''))),
           (''avocats'', Str (get_element_text meta_juri_judi (Child ''AVOCATS''))),
           (''rapporteur'', Str (get_element_text meta_juri_judi (Child ''RAPPORTEUR'')))]
          data)"

text \<open>
  \<open>data[key] = clean_text(''.join(elem.itertext()))\<close> for the first descendant with the
  given tag, if there is one (the content and the summary of CAPP.py and INCA.py, the
  content of CASS.py).
\<close>

definition full_text_block :: "string \<Rightarrow> string \<Rightarrow> element \<Rightarrow> dict \<Rightarrow> dict" where
  "full_text_block tg key root data =
     (case find_el root (Descendant tg) of None \<Rightarrow> data
      | Some found \<Rightarrow> setitem key (Str (clean_text (concat (itertext found)))) data)"

text \<open>The body of the \<open>try\<close> of \<open>parse_xml_file\<close>, behind \<open>ET.parse\<close>.\<close>

definition capp_extract :: "element \<Rightarrow> dict" where
  "capp_extract root =
     full_text_block ''SOMMAIRE'' ''sommaire'' root
       (full_text_block ''CONTENU'' ''contenu'' root
         (capp_meta_juri_judi root (meta_juri_block root (meta_commun_block root capp_data))))"

definition capp_try :: "document \<Rightarrow> exn + dict" where
  "capp_try doc = (case ET_parse doc of Inl e \<Rightarrow> Inl e | Inr root \<Rightarrow> Inr (capp_extract root))"

text \<open>
  \<open>parse_xml_file\<close> of CAPP.py: \<open>except Exception\<close> logs the error and returns \<open>None\<close>.
  The result is the returned value and the log entries written.
\<close>

definition capp_parse_xml_file :: "xml_file \<Rightarrow> dict option \<times> log_entry list" where
  "capp_parse_xml_file f =
     (case capp_try (content f) of
        Inr data \<Rightarrow> (Some data, [])
      | Inl e \<Rightarrow> (None, [ErrorParsing (path f) e]))"


text \<open>
  The field mapping of CAPP.py read off the three \<open>update\<close> literals, as rows
  (block tag, field tag, key), for every field extracted with \<open>get_element_text\<close>
  (all of them but \<open>numero_affaire\<close>).
\<close>

definition capp_rules :: "(string \<times> string \<times> string) list" where
  "capp_rules =
     [(''META_COMMUN'', ''ID'', ''id''),
      (''META_COMMUN'', ''ANCIEN_ID'', ''ancien_id''),
      (''META_COMMUN'', ''ORIGINE'', ''origine''),
      (''META_COMMUN'', ''URL'', ''url''),
      (''META_COMMUN'', ''NATURE'', ''nature''),
      (''META_JURI'', ''TITRE'', ''titre''),
      (''META_JURI'', ''DATE_DEC'', ''date_decision''),
      (''META_JURI'', ''JURIDICTION'', ''juridiction''),
      (''META_JURI'', ''NUMERO'', ''numero''),
      (''META_JURI'', ''SOLUTION'', ''solution''),
      (''META_JURI_JUDI'', ''FORMATION'', ''formation''),
      (''META_JURI_JUDI'', ''SIEGE_APPEL'', ''siege_appel''),
      (''META_JURI_JUDI'', ''JURI_PREM'', ''juridiction_premiere_instance''),
      (''META_JURI_JUDI'', ''LIEU_PREM'', ''lieu_premiere_instance''),
      (''META_JURI_JUDI'', ''PRESIDENT'', ''president''),
      (''META_JURI_JUDI'', ''AVOCAT_GL'', ''avocat_general''),
      (''META_JURI_JUDI'', ''AVOCATS'', ''avocats''),
      (''META_JURI_JUDI'', ''RAPPORTEUR'', ''rapporteur'')]"

text \<open>The value a row yields: the normalized field text, empty without block or field.\<close>

definition rule_value :: "element \<Rightarrow> string \<Rightarrow> string \<Rightarrow> val" where
  "rule_value root blk fld =
     Str (case find_el root (Descendant blk) of None \<Rightarrow> []
          | Some b \<Rightarrow> get_element_text b (Child fld))"

text \<open>
  The processing loop of \<open>main\<close> in CAPP.py (the same in CASS.py and INCA.py). The state
  holds the buffer, the counter, the lines of the output file (one record stands for its
  line \<open>json.dumps(item) + '\n'\<close>), the batches handed to \<open>write_batch_to_jsonl\<close> in
  call order, and the log. \<open>batch_size\<close>, a local constant of \<open>main\<close>, is a parameter.
  \<open>io_ok n\<close> tells whether the write attempt number \<open>n\<close> succeeds; a failing attempt
  is modelled as failing at \<open>open\<close>, so it leaves the file as it was.
\<close>

record run_state =
  batch_data :: "dict list"
  total_processed :: nat
  out_file :: "dict list"
  write_calls :: "dict list list"
  log :: "log_entry list"

definition write_batch_to_jsonl :: "(nat \<Rightarrow> bool) \<Rightarrow> dict list \<Rightarrow> run_state \<Rightarrow> run_state" where
  "write_batch_to_jsonl io_ok batch st =
     (if io_ok (length (write_calls st))
      then st\<lparr>out_file := out_file st @ batch, write_calls := write_calls st @ [batch]\<rparr>
      else st\<lparr>write_calls := write_calls st @ [batch], log := log st @ [ErrorWritingBatch]\<rparr>)"

definition capp_step :: "nat \<Rightarrow> (nat \<Rightarrow> bool) \<Rightarrow> run_state \<Rightarrow> xml_file \<Rightarrow> run_state" where
  "capp_step batch_size io_ok st f =
     (let st1 = st\<lparr>log := log st @ snd (capp_parse_xml_file f)\<rparr>
      in case fst (capp_parse_xml_file f) of
           None \<Rightarrow> st1
         | Some d \<Rightarrow>
             if d = [] then st1
             else (let st2 = st1\<lparr>batch_data := batch_data st1 @ [d],
                                 total_processed := total_processed st1 + 1\<rparr>
                   in if length (batch_data st2) \<ge> batch_size
                      then (let st3 = write_batch_to_jsonl io_ok (batch_data st2) st2
                            in st3\<lparr>batch_data := [],
                                   log := log st3 @ [InfoProcessed (total_processed st3)]\<rparr>)
                      else st2))"

definition start_state :: run_state where
  "start_state = \<lparr>batch_data = [], total_processed = 0, out_file = [], write_calls = [], log = []\<rparr>"

definition capp_main :: "nat \<Rightarrow> (nat \<Rightarrow> bool) \<Rightarrow> xml_file list \<Rightarrow> run_state" where
  "capp_main batch_size io_ok xml_files =
     (let st = foldl (capp_step batch_size io_ok) start_state xml_files
      in if batch_data st \<noteq> [] then write_batch_to_jsonl io_ok (batch_data st) st else st)"

text \<open>The records of the documents that parse, in file order.\<close>

definition capp_parsed :: "xml_file list \<Rightarrow> dict list" where
  "capp_parsed xml_files =
     List.map_filter (\<lambda>f. if truthy (fst (capp_parse_xml_file f))
                           then fst (capp_parse_xml_file f) else None) xml_files"

text \<open>
  The record a file contributes to the run: its parsed record when that is truthy.
\<close>

definition capp_record :: "xml_file \<Rightarrow> dict list" where
  "capp_record f =
     (case fst (capp_parse_xml_file f) of None \<Rightarrow> [] | Some d \<Rightarrow> if d = [] then [] else [d])"

text \<open>
  The invariant of the loop, for the records \<open>recs\<close> parsed so far: the batches written
  and the buffer make up \<open>recs\<close>; for a positive batch size every batch written is full
  and the buffer is not; and if no write attempt failed, the file holds the batches.
\<close>

definition sink_inv :: "nat \<Rightarrow> (nat \<Rightarrow> bool) \<Rightarrow> dict list \<Rightarrow> run_state \<Rightarrow> bool" where
  "sink_inv batch_size io_ok recs st =
     (concat (write_calls st) @ batch_data st = recs
      \<and> (0 < batch_size \<longrightarrow>
            (\<forall>c\<in>set (write_calls st). length c = batch_size)
            \<and> length (batch_data st) < batch_size)
      \<and> ((\<forall>n<length (write_calls st). io_ok n) \<longrightarrow> out_file st = concat (write_calls st)))"

section \<open>JADE.py\<close>

text \<open>
  The names bound at module level in JADE.py: the imports of lines 1 to 9 and the
  functions the module defines. \<open>re\<close> is not among them, and it is no builtin.
\<close>

definition jade_names :: "string list" where
  "jade_names = [''pd'', ''requests'', ''tarfile'', ''ET'', ''json'', ''os'', ''BytesIO'',
     ''glob'', ''tqdm'', ''download_and_extract'', ''clean_text'', ''get_element_text'',
     ''parse_xml_file'', ''main'']"

text \<open>
  \<open>clean_text\<close> of JADE.py has no guard for empty text; its first statement evaluates
  the name \<open>re\<close>, which raises \<open>NameError\<close> when the name is unbound.
\<close>

definition jade_clean_text :: "string \<Rightarrow> exn + string" where
  "jade_clean_text text0 =
     (if ''re'' \<notin> set jade_names then Inl NameError
      else let text1 = strip_tags text0;
               text2 = collapse_ws text1;
               text3 = replace ''&amp;'' ''&'' text2;
               text4 = replace ''&lt;'' ''<'' text3;
               text5 = replace ''&gt;'' ''>'' text4;
               text6 = replace ''&quot;'' [CHR 0x22] text5;
               text7 = replace ''&apos;'' [CHR 0x27] text6
           in Inr (strip text7))"

text \<open>\<open>get_element_text\<close> of JADE.py: the text found is only stripped.\<close>

definition jade_get_element_text :: "element \<Rightarrow> path \<Rightarrow> string" where
  "jade_get_element_text element p =
     (case find_el element p of None \<Rightarrow> []
      | Some found \<Rightarrow>
          (case el_text found of None \<Rightarrow> []
           | Some t \<Rightarrow> if t \<noteq> [] then strip t else []))"


definition jade_keys :: "string list" where
  "jade_keys = [''id'', ''ancien_id'', ''origine'', ''url'', ''nature'', ''titre'',
     ''date_decision'', ''juridiction'', ''numero'', ''formation'', ''type_recours'',
     ''publication_recueil'', ''president'', ''avocats'', ''rapporteur'',
     ''commissaire_gouvernement'', ''contenu'']"

definition jade_data :: dict where
  "jade_data = map (\<lambda>k. (k, Str [])) jade_keys"

text \<open>The three metadata blocks of JADE.py: assignments \<open>data[key] = ...\<close> in order.\<close>

definition jade_meta_commun :: "element \<Rightarrow> dict \<Rightarrow> dict" where
  "jade_meta_commun root data =
     (case find_el root (Descendant ''META_COMMUN'') of None \<Rightarrow> data
      | Some meta_commun \<Rightarrow> dict_update
          [(''id'', Str (jade_get_element_text meta_commun (Child ''ID''))),
           (''ancien_id'', Str (jade_get_element_text meta_commun (Child ''ANCIEN_ID''))),
           (''origine'', Str (jade_get_element_text meta_commun (Child ''ORIGINE''))),
           (''url'', Str (jade_get_element_text meta_commun (Child ''URL''))),
           (''nature'', Str (jade_get_element_text meta_commun (Child ''NATURE'')))] data)"

definition jade_meta_juri :: "element \<Rightarrow> dict \<Rightarrow> dict" where
  "jade_meta_juri root data =
     (case find_el root (Descendant ''META_JURI'') of None \<Rightarrow> data
      | Some meta_juri \<Rightarrow> dict_update
          [(''titre'', Str (jade_get_element_text meta_juri (Child ''TITRE''))),
           (''date_decision'', Str (jade_get_element_text meta_juri (Child ''DATE_DEC''))),
           (''juridiction'', Str (jade_get_element_text meta_juri (Child ''JURIDICTION''))),
           (''numero'', Str (jade_get_element_text meta_juri (Child ''NUMERO'')))] data)"

definition jade_meta_juri_admin :: "element \<Rightarrow> dict \<Rightarrow> dict" where
  "jade_meta_juri_admin root data =
     (case find_el root (Descendant ''META_JURI_ADMIN'') of None \<Rightarrow> data
      | Some meta_juri_admin \<Rightarrow> dict_update
          [(''formation'', Str (jade_get_element_text meta_juri_admin (Child ''FORMATION''))),
           (''type_recours'', Str (jade_get_element_text meta_juri_admin (Child ''TYPE_REC''))),
           (''publication_recueil'',
              Str (jade_get_element_text meta_juri_admin (Child ''PUBLI_RECUEIL''))),
           (''president'', Str (jade_get_element_text meta_juri_admin (Child ''PRESIDENT''))),
           (''avocats'', Str (jade_get_element_text meta_juri_admin (Child ''AVOCATS''))),
           (''rapporteur'', Str (jade_get_element_text meta_juri_admin (Child ''RAPPORTEUR''))),
           (''commissaire_gouvernement'',
              Str (jade_get_element_text meta_juri_admin (Child ''COMMISSAIRE_GVT'')))] data)"

definition jade_metadata :: "element \<Rightarrow> dict" where
  "jade_metadata root = jade_meta_juri_admin root (jade_meta_juri root (jade_meta_commun root jade_data))"

text \<open>
  The field mapping of JADE.py read off its assignments, as rows (block tag, field tag,
  key), and the value a row yields.
\<close>

definition jade_rules :: "(string \<times> string \<times> string) list" where
  "jade_rules =
     [(''META_COMMUN'', ''ID'', ''id''),
      (''META_COMMUN'', ''ANCIEN_ID'', ''ancien_id''),
      (''META_COMMUN'', ''ORIGINE'', ''origine''),
      (''META_COMMUN'', ''URL'', ''url''),
      (''META_COMMUN'', ''NATURE'', ''nature''),
      (''META_JURI'', ''TITRE'', ''titre''),
      (''META_JURI'', ''DATE_DEC'', ''date_decision''),
      (''META_JURI'', ''JURIDICTION'', ''juridiction''),
      (''META_JURI'', ''NUMERO'', ''numero''),
      (''META_JURI_ADMIN'', ''FORMATION'', ''formation''),
      (''META_JURI_ADMIN'', ''TYPE_REC'', ''type_recours''),
      (''META_JURI_ADMIN'', ''PUBLI_RECUEIL'', ''publication_recueil''),
      (''META_JURI_ADMIN'', ''PRESIDENT'', ''president''),
      (''META_JURI_ADMIN'', ''AVOCATS'', ''avocats''),
      (''META_JURI_ADMIN'', ''RAPPORTEUR'', ''rapporteur''),
      (''META_JURI_ADMIN'', ''COMMISSAIRE_GVT'', ''commissaire_gouvernement'')]"

definition jade_rule_value :: "element \<Rightarrow> string \<Rightarrow> string \<Rightarrow> val" where
  "jade_rule_value root blk fld =
     Str (case find_el root (Descendant blk) of None \<Rightarrow> []
          | Some b \<Rightarrow> jade_get_element_text b (Child fld))"

definition jade_try :: "document \<Rightarrow> exn + dict" where
  "jade_try doc =
     (case ET_parse doc of Inl e \<Rightarrow> Inl e
      | Inr root \<Rightarrow>
          (let data = jade_metadata root
           in case find_el root (Descendant ''CONTENU'') of None \<Rightarrow> Inr data
              | Some contenu_element \<Rightarrow>
                  (case jade_clean_text (concat (itertext contenu_element)) of
                     Inl e \<Rightarrow> Inl e
                   | Inr cleaned \<Rightarrow> Inr (setitem ''contenu'' (Str cleaned) data))))"

text \<open>\<open>parse_xml_file\<close> of JADE.py: \<open>except Exception\<close> prints the error and returns \<open>None\<close>.\<close>

definition jade_parse_xml_file :: "xml_file \<Rightarrow> dict option \<times> log_entry list" where
  "jade_parse_xml_file f =
     (case jade_try (content f) of
        Inr data \<Rightarrow> (Some data, [])
      | Inl e \<Rightarrow> (None, [ErrorParsing (path f) e]))"

text \<open>The loop of \<open>main\<close> in JADE.py: \<open>results\<close>, written to the dataset at the end.\<close>

definition jade_results :: "xml_file list \<Rightarrow> dict list" where
  "jade_results xml_files =
     List.map_filter (\<lambda>f. if truthy (fst (jade_parse_xml_file f))
                           then fst (jade_parse_xml_file f) else None) xml_files"

section \<open>CNIL.py\<close>

text \<open>\<open>str.lower()\<close> on the ASCII letters of the field names.\<close>

definition lower :: "string \<Rightarrow> string" where
  "lower s = map (\<lambda>c. if 65 \<le> (of_char c :: nat) \<and> (of_char c :: nat) \<le> 90
                        then char_of (of_char c + (32 :: nat)) else c) s"

text \<open>\<open>for field in fields: data_extracted[field.lower()] = meta.findtext(field, "")\<close>.\<close>

definition cnil_fields :: "element \<Rightarrow> string list \<Rightarrow> dict \<Rightarrow> dict" where
  "cnil_fields meta names data =
     fold (\<lambda>field. setitem (lower field) (Str (findtext meta (Child field) []))) names data"

definition cnil_meta_commun :: "element \<Rightarrow> dict \<Rightarrow> dict" where
  "cnil_meta_commun root data =
     (case find_el root (Descendant ''META_COMMUN'') of None \<Rightarrow> data
      | Some meta \<Rightarrow> cnil_fields meta [''ID'', ''ORIGINE'', ''URL'', ''NATURE''] data)"

text \<open>
  The content of CNIL.py: the text serialization of the element, stripped. Neither tags
  nor whitespace nor entities are treated.
\<close>

definition cnil_contenu :: "element \<Rightarrow> dict \<Rightarrow> dict" where
  "cnil_contenu root data =
     (case find_el root (Descendant ''CONTENU'') of None \<Rightarrow> data
      | Some contenu \<Rightarrow> setitem ''contenu'' (Str (strip (tostring_text contenu))) data)"

text \<open>
  The body of the \<open>try\<close> of \<open>parse_cnil_xml_file\<close>. The record starts empty. The loop
  over the \<open>META_CNIL\<close> fields has no guard: without that block, \<open>meta\<close> is \<open>None\<close> and
  \<open>meta.findtext\<close> raises \<open>AttributeError\<close>.
\<close>

definition cnil_try :: "document \<Rightarrow> exn + dict" where
  "cnil_try doc =
     (case ET_parse doc of Inl e \<Rightarrow> Inl e
      | Inr root \<Rightarrow>
          (let data = cnil_meta_commun root []
           in case find_el root (Descendant ''META_CNIL'') of None \<Rightarrow> Inl AttributeError
              | Some meta \<Rightarrow>
                  Inr (cnil_contenu root
                        (cnil_fields meta [''TITREFULL'', ''NUMERO'', ''NATURE_DELIB'',
                           ''DATE_TEXTE'', ''DATE_PUBLI'', ''ETAT_JURIDIQUE''] data))))"

text \<open>
  \<open>parse_cnil_xml_file\<close>: \<open>ET.ParseError\<close> is raised again as \<open>ValueError\<close>, any other
  exception as \<open>RuntimeError\<close>.
\<close>

definition parse_cnil_xml_file :: "xml_file \<Rightarrow> exn + dict" where
  "parse_cnil_xml_file f =
     (case cnil_try (content f) of
        Inr data \<Rightarrow> Inr data
      | Inl e \<Rightarrow> if e = ParseError then Inl ValueError else Inl RuntimeError)"

text \<open>
  The loop of \<open>tar_dila_data\<close>: the call of the parser stands in no \<open>try\<close>, so an
  exception leaves the function before the dataset is written.
\<close>

fun cnil_loop :: "xml_file list \<Rightarrow> dict list \<Rightarrow> exn + dict list" where
  "cnil_loop [] results = Inr results"
| "cnil_loop (f # fs) results =
     (case parse_cnil_xml_file f of
        Inl e \<Rightarrow> Inl e
      | Inr data \<Rightarrow> cnil_loop fs (if data \<noteq> [] then results @ [data] else results))"

definition tar_dila_data :: "xml_file list \<Rightarrow> exn + dict list" where
  "tar_dila_data xml_files = cnil_loop xml_files []"

text \<open>The two field loops of CNIL.py as rows (field tag, key).\<close>

definition cnil_commun_rules :: "(string \<times> string) list" where
  "cnil_commun_rules =
     [(''ID'', ''id''), (''ORIGINE'', ''origine''), (''URL'', ''url''), (''NATURE'', ''nature'')]"

definition cnil_rules :: "(string \<times> string) list" where
  "cnil_rules =
     [(''TITREFULL'', ''titrefull''), (''NUMERO'', ''numero''),
      (''NATURE_DELIB'', ''nature_delib''), (''DATE_TEXTE'', ''date_texte''),
      (''DATE_PUBLI'', ''date_publi''), (''ETAT_JURIDIQUE'', ''etat_juridique'')]"

text \<open>The keys that the docstring of \<open>parse_cnil_xml_file\<close> lists for the returned dict.\<close>

definition cnil_keys :: "string list" where
  "cnil_keys = [''id'', ''origine'', ''url'', ''nature'', ''titrefull'', ''numero'',
     ''nature_delib'', ''date_texte'', ''date_publi'', ''etat_juridique'', ''contenu'']"

section \<open>INCA.py and CASS.py\<close>

definition inca_keys :: "string list" where
  "inca_keys = [''id'', ''ancien_id'', ''origine'', ''url'', ''nature'', ''titre'',
     ''date_decision'', ''juridiction'', ''numero'', ''solution'', ''numero_affaire'',
     ''publie_bulletin'', ''formation'', ''date_decision_attaquee'', ''juridiction_attaquee'',
     ''siege_appel'', ''juridiction_premiere_instance'', ''lieu_premiere_instance'',
     ''demandeur'', ''defendeur'', ''president'', ''avocat_general'', ''avocats'',
     ''rapporteur'', ''ecli'', ''contenu'', ''sommaire'']"

definition inca_data :: dict where
  "inca_data = map (\<lambda>k. (k, Str [])) inca_keys"

text \<open>
  The publication flag, in both scripts:
  \<^verbatim>\<open>publi_bull.get('publie') if publi_bull is not None else ''\<close>.
  \<open>Element.get\<close> has the default \<open>None\<close>.
\<close>

definition publie_bulletin :: "element \<Rightarrow> val" where
  "publie_bulletin meta_juri_judi =
     (case find_el meta_juri_judi (Child ''PUBLI_BULL'') of None \<Rightarrow> Str []
      | Some publi_bull \<Rightarrow>
          (case map_of (el_attrib publi_bull) ''publie'' of None \<Rightarrow> PyNone
           | Some v \<Rightarrow> Str v))"

text \<open>The fields read from a \<open>META_JURI_JUDI\<close> element (CASS.py and INCA.py).\<close>

definition meta_juri_judi_fields :: "element \<Rightarrow> (string \<times> val) list" where
  "meta_juri_judi_fields meta_juri_judi =
     [(''numero_affaire'', Str (get_element_text meta_juri_judi (Descendant ''NUMERO_AFFAIRE''))),
      (''publie_bulletin'', publie_bulletin meta_juri_judi),
      (''formation'', Str (get_element_text meta_juri_judi (Child ''FORMATION''))),
      (''date_decision_attaquee'', Str (get_element_text meta_juri_judi (Child ''DATE_DEC_ATT''))),
      (''juridiction_attaquee'', Str (get_element_text meta_juri_judi (Child ''FORM_DEC_ATT''))),
      (''siege_appel'', Str (get_element_text meta_juri_judi (Child ''SIEGE_APPEL''))),
      (''juridiction_premiere_instance'',
         Str (get_element_text meta_juri_judi (Child ''JURI_PREM''))),
      (''lieu_premiere_instance'', Str (get_element_text meta_juri_judi (Child ''LIEU_PREM''))),
      (''demandeur'', Str (get_element_text meta_juri_judi (Child ''DEMANDEUR''))),
      (''defendeur'', Str (get_element_text meta_juri_judi (Child ''DEFENDEUR''))),
      (''president'', Str (get_element_text meta_juri_judi (Child ''PRESIDENT''))),
      (''avocat_general'', Str (get_element_text meta_juri_judi (Child ''AVOCAT_GL''))),
      (''avocats'', Str (get_element_text meta_juri_judi (Child ''AVOCATS''))),
      (''rapporteur'', Str (get_element_text meta_juri_judi (Child ''RAPPORTEUR''))),
      (''ecli'', Str (get_element_text meta_juri_judi (Child ''ECLI'')))]"

text \<open>
  The block \<open># META_SPEC\<close> of INCA.py: both specialized blocks are looked up below the
  \<open>META_SPEC\<close> element, and only there; the \<open>if\<close> has no \<open>else\<close>.
\<close>

definition inca_meta_spec :: "element \<Rightarrow> dict \<Rightarrow> dict" where
  "inca_meta_spec root data =
     (case find_el root (Descendant ''META_SPEC'') of None \<Rightarrow> data
      | Some meta_spec \<Rightarrow>
          (let data1 = (case find_el meta_spec (Descendant ''META_JURI'') of None \<Rightarrow> data
                        | Some meta_juri \<Rightarrow> dict_update (meta_juri_fields meta_juri) data)
           in case find_el meta_spec (Descendant ''META_JURI_JUDI'') of None \<Rightarrow> data1
              | Some meta_juri_judi \<Rightarrow>
                  dict_update (meta_juri_judi_fields meta_juri_judi) data1))"

definition inca_extract :: "element \<Rightarrow> dict" where
  "inca_extract root =
     full_text_block ''SOMMAIRE'' ''sommaire'' root
       (full_text_block ''CONTENU'' ''contenu'' root
         (inca_meta_spec root (meta_commun_block root inca_data)))"

definition inca_try :: "document \<Rightarrow> exn + dict" where
  "inca_try doc = (case ET_parse doc of Inl e \<Rightarrow> Inl e | Inr root \<Rightarrow> Inr (inca_extract root))"

definition inca_parse_xml_file :: "xml_file \<Rightarrow> dict option \<times> log_entry list" where
  "inca_parse_xml_file f =
     (case inca_try (content f) of
        Inr data \<Rightarrow> (Some data, [])
      | Inl e \<Rightarrow> (None, [ErrorParsing (path f) e]))"

definition cass_keys :: "string list" where
  "cass_keys = [''id'', ''ancien_id'', ''origine'', ''url'', ''nature'', ''titre'',
     ''date_decision'', ''juridiction'', ''numero'', ''solution'', ''numero_affaire'',
     ''publie_bulletin'', ''formation'', ''date_decision_attaquee'', ''juridiction_attaquee'',
     ''siege_appel'', ''juridiction_premiere_instance'', ''lieu_premiere_instance'',
     ''demandeur'', ''defendeur'', ''president'', ''avocat_general'', ''avocats'',
     ''rapporteur'', ''ecli'', ''contenu'', ''sommaire_principal'', ''sommaire_reference'',
     ''sommaire_analyse'']"

definition cass_data :: dict where
  "cass_data = map (\<lambda>k. (k, Str [])) cass_keys"

definition cass_meta_juri_judi :: "element \<Rightarrow> dict \<Rightarrow> dict" where
  "cass_meta_juri_judi root data =
     (case find_el root (Descendant ''META_JURI_JUDI'') of None \<Rightarrow> data
      | Some meta_juri_judi \<Rightarrow> dict_update (meta_juri_judi_fields meta_juri_judi) data)"

text \<open>\<open>clean_text(found.text) if found is not None else ''\<close>; \<open>clean_text(None)\<close> is \<open>""\<close>.\<close>

definition clean_found :: "element option \<Rightarrow> string" where
  "clean_found found =
     (case found of None \<Rightarrow> []
      | Some e \<Rightarrow> (case el_text e of None \<Rightarrow> [] | Some t \<Rightarrow> clean_text t))"

definition cass_sommaire :: "element \<Rightarrow> dict \<Rightarrow> dict" where
  "cass_sommaire root data =
     (case find_el root (Descendant ''SOMMAIRE'') of None \<Rightarrow> data
      | Some sommaire \<Rightarrow> dict_update
          [(''sommaire_principal'',
              Str (clean_found (find_el sommaire (DescendantAttr ''SCT'' ''TYPE'' ''PRINCIPAL'')))),
           (''sommaire_reference'',
              Str (clean_found (find_el sommaire (DescendantAttr ''SCT'' ''TYPE'' ''REFERENCE'')))),
           (''sommaire_analyse'', Str (clean_found (find_el sommaire (Descendant ''ANA''))))]
          data)"

definition cass_extract :: "element \<Rightarrow> dict" where
  "cass_extract root =
     cass_sommaire root
       (full_text_block ''CONTENU'' ''contenu'' root
         (cass_meta_juri_judi root (meta_juri_block root (meta_commun_block root cass_data))))"

definition cass_try :: "document \<Rightarrow> exn + dict" where
  "cass_try doc = (case ET_parse doc of Inl e \<Rightarrow> Inl e | Inr root \<Rightarrow> Inr (cass_extract root))"

definition cass_parse_xml_file :: "xml_file \<Rightarrow> dict option \<times> log_entry list" where
  "cass_parse_xml_file f =
     (case cass_try (content f) of
        Inr data \<Rightarrow> (Some data, [])
      | Inl e \<Rightarrow> (None, [ErrorParsing (path f) e]))"

section \<open>Example documents\<close>

text \<open>A CNIL document with its \<open>META_CNIL\<close> block and nothing else.\<close>

definition cnil_bare :: xml_file where
  "cnil_bare = \<lparr>path = ''cnil_bare.xml'',
     content = WellFormed (Element ''TEXTE_CNIL'' [] None
       [Element ''META_CNIL'' [] None
          [Element ''NUMERO'' [] (Some ''2020-001'') [] None] None] None)\<rparr>"

text \<open>A CAPP document: common metadata, an empty case number, nested markup in the content.\<close>

definition capp_root :: element where
  "capp_root = Element ''TEXTE_JURI_JUDI'' [] None
     [Element ''META'' [] None
        [Element ''META_COMMUN'' [] None [Element ''ID'' [] (Some ''JURITEXT1 '') [] None] None,
         Element ''META_JURI_JUDI'' [] None
           [Element ''NUMERO_AFFAIRE'' [] None [] None] None] None,
      Element ''CONTENU'' [] (Some ''Vu  '')
        [Element ''b'' [] (Some ''la loi'') [Element ''br'' [] None [] (Some '' du'')]
           (Some '' 1er &amp; 2'')] None] None"

definition capp_file :: xml_file where
  "capp_file = \<lparr>path = ''capp.xml'', content = WellFormed capp_root\<rparr>"

definition bad_file :: xml_file where
  "bad_file = \<lparr>path = ''bad.xml'', content = Malformed\<rparr>"

text \<open>A \<open>META_JURI\<close> block whose title holds a double space and a trailing space.\<close>

definition titre_block :: element where
  "titre_block = Element ''META_JURI'' [] None
     [Element ''TITRE'' [] (Some ''Cour  de cassation '') [] None,
      Element ''NUMERO'' [] None [] None] None"

text \<open>
  A \<open>META_JURI_JUDI\<close> block whose \<open>PUBLI_BULL\<close> element carries no \<open>publie\<close>
  attribute, and the INCA and CASS documents around it.
\<close>

definition judi_block :: element where
  "judi_block = Element ''META_JURI_JUDI'' [] None
     [Element ''PUBLI_BULL'' [] None [] None,
      Element ''FORMATION'' [] (Some ''CHAMBRE_CIVILE_1'') [] None] None"

definition inca_root :: element where
  "inca_root = Element ''TEXTE_JURI_JUDI'' [] None
     [Element ''META'' [] None
        [Element ''META_SPEC'' [] None [titre_block, judi_block] None] None] None"

definition cass_root :: element where
  "cass_root = Element ''TEXTE_JURI_JUDI'' [] None
     [Element ''META'' [] None [judi_block] None] None"


text \<open>JADE documents with and without a \<open>CONTENU\<close> element.\<close>

definition jade_root :: element where
  "jade_root = Element ''TEXTE_JURI_ADMIN'' [] None
     [Element ''META'' [] None [titre_block] None,
      Element ''TEXTE'' [] None [Element ''CONTENU'' [] (Some ''Vu la requete'') [] None] None]
     None"

definition jade_bare_root :: element where
  "jade_bare_root = Element ''TEXTE_JURI_ADMIN'' [] None
     [Element ''META'' [] None [titre_block] None] None"

text \<open>A CNIL document whose content holds a double space and an entity-encoded bracket.\<close>

definition cnil_contenu_el :: element where
  "cnil_contenu_el = Element ''CONTENU'' [] (Some ''Article  1er '')
     [Element ''p'' [] (Some ''a &lt; b'') [] None] (Some [CHR 0x0A])"

definition cnil_root :: element where
  "cnil_root = Element ''TEXTE_CNIL'' [] None
     [Element ''META_CNIL'' [] None [] None, cnil_contenu_el] None"

definition cnil_file :: xml_file where
  "cnil_file = \<lparr>path = ''cnil.xml'', content = WellFormed cnil_root\<rparr>"

text \<open>A document whose root is itself the only \<open>CONTENU\<close> element.\<close>

definition contenu_root :: element where
  "contenu_root = Element ''CONTENU'' [] (Some ''Vu la requete'') [] None"

section \<open>Properties of the text normalizer\<close>

lemma replace_absent: "\<not> sublist old s \<Longrightarrow> replace old new s = s"
proof (induction old new s rule: replace.induct)
  case (1 old new)
  then show ?case by simp
next
  case (2 old new c cs)
  from "2.prems" have np: "\<not> prefix old (c # cs)" and ns: "\<not> sublist old cs"
    by (simp_all add: sublist_Cons_right)
  from np ns "2.IH"(2) show ?case by simp
qed

lemma set_strip_tags: "set (strip_tags s) \<subseteq> insert (CHR '' '') (set s)"
proof (induction s rule: strip_tags.induct)
  case 1
  then show ?case by simp
next
  case (2 c cs)
  have "set (tl (dropWhile (\<lambda>x. x \<noteq> CHR ''>'') cs)) \<subseteq> set cs"
    by (meson set_mono_suffix suffix_tl suffix_dropWhile suffix_order.order_trans)
  with 2 show ?case by (auto split: if_splits)
qed

lemma set_collapse_ws: "set (collapse_ws s) \<subseteq> insert (CHR '' '') (set s)"
proof (induction s rule: collapse_ws.induct)
  case 1
  then show ?case by simp
next
  case (2 c cs)
  have "set (dropWhile isspace cs) \<subseteq> set cs"
    by (meson set_dropWhileD subsetI)
  with 2 show ?case by (auto split: if_splits)
qed

lemma prefix_strip_tags:
  "CHR '' '' \<notin> set p \<Longrightarrow> prefix p (strip_tags s) \<Longrightarrow> prefix p s"
proof (induction s arbitrary: p rule: strip_tags.induct)
  case 1
  then show ?case by simp
next
  case (2 c cs)
  show ?case
  proof (cases p)
    case Nil
    then show ?thesis by simp
  next
    case (Cons a q)
    with "2.prems" have a: "a \<noteq> CHR '' ''" and q: "CHR '' '' \<notin> set q" by auto
    show ?thesis
    proof (cases "c = CHR ''<'' \<and> tag_opens cs")
      case True
      with "2.prems"(2) Cons a show ?thesis by simp
    next
      case False
      with "2.prems"(2) Cons have "a = c" and "prefix q (strip_tags cs)" by auto
      with "2.IH"(2) [OF False q] Cons show ?thesis by simp
    qed
  qed
qed

lemma sublist_strip_tags:
  "e \<noteq> [] \<Longrightarrow> CHR '' '' \<notin> set e \<Longrightarrow> sublist e (strip_tags s) \<Longrightarrow> sublist e s"
proof (induction s rule: strip_tags.induct)
  case 1
  then show ?case by simp
next
  case (2 c cs)
  show ?case
  proof (cases "c = CHR ''<'' \<and> tag_opens cs")
    case True
    let ?r = "tl (dropWhile (\<lambda>x. x \<noteq> CHR ''>'') cs)"
    from True "2.prems" have "prefix e (CHR '' '' # strip_tags ?r) \<or> sublist e (strip_tags ?r)"
      by (simp add: sublist_Cons_right)
    moreover have "\<not> prefix e (CHR '' '' # strip_tags ?r)"
      using "2.prems"(1,2) by (cases e) auto
    ultimately have "sublist e ?r" using "2.IH"(1) [OF True "2.prems"(1,2)] by simp
    moreover have "sublist ?r cs"
      by (meson suffix_imp_sublist suffix_tl suffix_dropWhile suffix_order.order_trans)
    ultimately show ?thesis
      by (meson sublist_Cons_right sublist_order.order_trans)
  next
    case False
    with "2.prems" have "prefix e (c # strip_tags cs) \<or> sublist e (strip_tags cs)"
      by (simp add: sublist_Cons_right)
    then show ?thesis
    proof
      assume "prefix e (c # strip_tags cs)"
      then have "prefix e (strip_tags (c # cs))" using False by auto
      then have "prefix e (c # cs)" using prefix_strip_tags "2.prems"(2) by blast
      then show ?thesis by (simp add: sublist_Cons_right)
    next
      assume "sublist e (strip_tags cs)"
      then have "sublist e cs" using "2.IH"(2) [OF False "2.prems"(1,2)] by simp
      then show ?thesis by (simp add: sublist_Cons_right)
    qed
  qed
qed


lemma isspace_space: "isspace (CHR '' '')"
  by (simp add: isspace_def)

lemma prefix_collapse_ws:
  "\<forall>x\<in>set p. \<not> isspace x \<Longrightarrow> prefix p (collapse_ws s) \<Longrightarrow> prefix p s"
proof (induction s arbitrary: p rule: collapse_ws.induct)
  case 1
  then show ?case by simp
next
  case (2 c cs)
  show ?case
  proof (cases p)
    case Nil
    then show ?thesis by simp
  next
    case (Cons a q)
    with "2.prems" have a: "\<not> isspace a" and q: "\<forall>x\<in>set q. \<not> isspace x" by auto
    show ?thesis
    proof (cases "isspace c")
      case True
      with "2.prems"(2) Cons a isspace_space show ?thesis by auto
    next
      case False
      with "2.prems"(2) Cons have "a = c" and "prefix q (collapse_ws cs)" by auto
      with "2.IH"(2) [OF False q] Cons show ?thesis by simp
    qed
  qed
qed

lemma sublist_collapse_ws:
  "e \<noteq> [] \<Longrightarrow> \<forall>x\<in>set e. \<not> isspace x \<Longrightarrow> sublist e (collapse_ws s) \<Longrightarrow> sublist e s"
proof (induction s rule: collapse_ws.induct)
  case 1
  then show ?case by simp
next
  case (2 c cs)
  show ?case
  proof (cases "isspace c")
    case True
    let ?r = "dropWhile isspace cs"
    from True "2.prems" have "prefix e (CHR '' '' # collapse_ws ?r) \<or> sublist e (collapse_ws ?r)"
      by (simp add: sublist_Cons_right)
    moreover have "\<not> prefix e (CHR '' '' # collapse_ws ?r)"
      using "2.prems"(1,2) isspace_space by (cases e) auto
    ultimately have "sublist e ?r" using "2.IH"(1) [OF True "2.prems"(1,2)] by simp
    moreover have "sublist ?r cs" by simp
    ultimately show ?thesis
      by (meson sublist_Cons_right sublist_order.order_trans)
  next
    case False
    with "2.prems" have "prefix e (c # collapse_ws cs) \<or> sublist e (collapse_ws cs)"
      by (simp add: sublist_Cons_right)
    then show ?thesis
    proof
      assume "prefix e (c # collapse_ws cs)"
      then have "prefix e (collapse_ws (c # cs))" using False by auto
      then have "prefix e (c # cs)" using prefix_collapse_ws "2.prems"(2) by blast
      then show ?thesis by (simp add: sublist_Cons_right)
    next
      assume "sublist e (collapse_ws cs)"
      then have "sublist e cs" using "2.IH"(2) [OF False "2.prems"(1,2)] by simp
      then show ?thesis by (simp add: sublist_Cons_right)
    qed
  qed
qed

lemma strip_decomp: "\<exists>a b. s = a @ strip s @ b"
proof -
  let ?d = "dropWhile isspace s"
  have "s = takeWhile isspace s @ ?d" by simp
  moreover have "rev ?d = takeWhile isspace (rev ?d) @ dropWhile isspace (rev ?d)" by simp
  then have "?d = rev (dropWhile isspace (rev ?d)) @ rev (takeWhile isspace (rev ?d))"
    by (metis rev_append rev_rev_ident)
  ultimately have "s = takeWhile isspace s @ strip s @ rev (takeWhile isspace (rev ?d))"
    by (simp add: strip_def)
  then show ?thesis by blast
qed

lemma sublist_strip: "sublist (strip s) s"
  using strip_decomp [of s] by (auto simp: sublist_def)

lemma dropWhile_prefix_fixed:
  assumes "a = dropWhile P s" and "a = p @ q"
  shows "dropWhile P p = p"
proof (cases p)
  case Nil
  then show ?thesis by simp
next
  case (Cons x xs)
  with assms(2) have a: "a = x # (xs @ q)" by simp
  then have "a \<noteq> []" and "hd a = x" by simp_all
  with assms(1) have "\<not> P x" using hd_dropWhile [of P s] by metis
  with Cons show ?thesis by simp
qed

lemma strip_idem: "strip (strip s) = strip s"
proof -
  define a where "a = dropWhile isspace s"
  define b where "b = dropWhile isspace (rev a)"
  have "rev a = takeWhile isspace (rev a) @ b"
    by (simp add: b_def)
  then have "a = rev b @ rev (takeWhile isspace (rev a))"
    by (metis rev_append rev_rev_ident)
  with a_def have "dropWhile isspace (rev b) = rev b"
    by (rule dropWhile_prefix_fixed)
  moreover have "dropWhile isspace b = b"
    by (simp add: b_def)
  moreover have "strip s = rev b"
    by (simp add: strip_def a_def b_def)
  ultimately show ?thesis
    by (simp add: strip_def)
qed

lemma not_tag_opens_iff:
  "\<not> tag_opens cs \<longleftrightarrow> cs = [] \<or> hd cs = CHR ''>'' \<or> CHR ''>'' \<notin> set cs"
  by (cases cs) (auto simp: tag_opens_def dropWhile_eq_Nil_conv)

lemma strip_tags_notag: "notag s \<Longrightarrow> strip_tags s = s"
  by (induction s) auto

lemma not_tag_opens_strip_tags:
  assumes "\<not> tag_opens cs"
  shows "\<not> tag_opens (strip_tags cs)"
proof (cases cs)
  case Nil
  then show ?thesis by (simp add: tag_opens_def)
next
  case (Cons c r)
  with assms have "c = CHR ''>'' \<or> CHR ''>'' \<notin> set cs"
    by (simp add: not_tag_opens_iff)
  then show ?thesis
  proof
    assume "c = CHR ''>''"
    with Cons show ?thesis by (simp add: tag_opens_def)
  next
    assume "CHR ''>'' \<notin> set cs"
    with set_strip_tags [of cs] have "CHR ''>'' \<notin> set (strip_tags cs)" by auto
    then show ?thesis by (simp add: not_tag_opens_iff)
  qed
qed

lemma notag_strip_tags: "notag (strip_tags s)"
proof (induction s rule: strip_tags.induct)
  case 1
  then show ?case by simp
next
  case (2 c cs)
  then show ?case by (auto simp: not_tag_opens_strip_tags)
qed

lemma notag_append: "notag (xs @ ys) \<Longrightarrow> notag xs \<and> notag ys"
proof (induction xs)
  case Nil
  then show ?case by simp
next
  case (Cons c xs)
  then have "c = CHR ''<'' \<longrightarrow> \<not> tag_opens (xs @ ys)" and r: "notag xs \<and> notag ys" by auto
  then have "c = CHR ''<'' \<longrightarrow> \<not> tag_opens xs"
    unfolding not_tag_opens_iff by (cases xs) auto
  with r show ?case by simp
qed

lemma notag_dropWhile: "notag s \<Longrightarrow> notag (dropWhile P s)"
  by (metis notag_append takeWhile_dropWhile_id)

lemma not_tag_opens_collapse_ws:
  assumes "\<not> tag_opens cs"
  shows "\<not> tag_opens (collapse_ws cs)"
proof (cases cs)
  case Nil
  then show ?thesis by (simp add: tag_opens_def)
next
  case (Cons c r)
  with assms have "c = CHR ''>'' \<or> CHR ''>'' \<notin> set cs"
    by (simp add: not_tag_opens_iff)
  then show ?thesis
  proof
    assume "c = CHR ''>''"
    with Cons show ?thesis by (simp add: tag_opens_def isspace_def)
  next
    assume "CHR ''>'' \<notin> set cs"
    with set_collapse_ws [of cs] have "CHR ''>'' \<notin> set (collapse_ws cs)" by auto
    then show ?thesis by (simp add: not_tag_opens_iff)
  qed
qed

lemma notag_collapse_ws: "notag s \<Longrightarrow> notag (collapse_ws s)"
proof (induction s rule: collapse_ws.induct)
  case 1
  then show ?case by simp
next
  case (2 c cs)
  then show ?case
    by (auto simp: not_tag_opens_collapse_ws notag_dropWhile)
qed

lemma notag_strip: "notag s \<Longrightarrow> notag (strip s)"
  using strip_decomp [of s] by (metis notag_append)

lemma dropWhile_unchanged: "cs = [] \<or> \<not> P (hd cs) \<Longrightarrow> dropWhile P cs = cs"
  by (cases cs) auto

lemma collapse_ws_wsnorm: "wsnorm s \<Longrightarrow> collapse_ws s = s"
  by (induction s) (auto simp: dropWhile_unchanged)

lemma hd_collapse_ws_nonspace:
  "s = [] \<or> \<not> isspace (hd s) \<Longrightarrow> collapse_ws s = [] \<or> \<not> isspace (hd (collapse_ws s))"
  by (cases s) auto

lemma wsnorm_collapse_ws: "wsnorm (collapse_ws s)"
proof (induction s rule: collapse_ws.induct)
  case 1
  then show ?case by simp
next
  case (2 c cs)
  have "dropWhile isspace cs = [] \<or> \<not> isspace (hd (dropWhile isspace cs))"
    using hd_dropWhile [of isspace cs] by blast
  then have "collapse_ws (dropWhile isspace cs) = []
      \<or> \<not> isspace (hd (collapse_ws (dropWhile isspace cs)))"
    by (rule hd_collapse_ws_nonspace)
  with 2 show ?case by auto
qed

lemma wsnorm_append: "wsnorm (xs @ ys) \<Longrightarrow> wsnorm xs \<and> wsnorm ys"
proof (induction xs)
  case Nil
  then show ?case by simp
next
  case (Cons c xs)
  then have h: "isspace c \<longrightarrow> c = CHR '' '' \<and> (xs @ ys = [] \<or> \<not> isspace (hd (xs @ ys)))"
    and r: "wsnorm xs \<and> wsnorm ys" by auto
  from h have "isspace c \<longrightarrow> c = CHR '' '' \<and> (xs = [] \<or> \<not> isspace (hd xs))"
    by (cases xs) auto
  with r show ?case by simp
qed

lemma wsnorm_strip: "wsnorm s \<Longrightarrow> wsnorm (strip s)"
  using strip_decomp [of s] by (metis wsnorm_append)

lemma entity_chars:
  "e \<in> set entities \<Longrightarrow> e \<noteq> [] \<and> CHR '' '' \<notin> set e \<and> (\<forall>x\<in>set e. \<not> isspace x)"
  by (auto simp: entities_def isspace_def)

lemma no_entity_strip_tags: "\<not> has_entity s \<Longrightarrow> \<not> has_entity (strip_tags s)"
  unfolding has_entity_def list_ex_iff
  using entity_chars sublist_strip_tags by blast

lemma no_entity_collapse_ws: "\<not> has_entity s \<Longrightarrow> \<not> has_entity (collapse_ws s)"
  unfolding has_entity_def list_ex_iff
  using entity_chars sublist_collapse_ws by blast

lemma no_entity_strip: "\<not> has_entity s \<Longrightarrow> \<not> has_entity (strip s)"
  unfolding has_entity_def list_ex_iff
  using sublist_strip sublist_order.order_trans by blast

lemma clean_text_no_entity:
  assumes "\<not> has_entity s"
  shows "clean_text s = strip (collapse_ws (strip_tags s))"
proof -
  let ?t = "collapse_ws (strip_tags s)"
  from assms have "\<not> has_entity ?t"
    by (simp add: no_entity_strip_tags no_entity_collapse_ws)
  then have "\<forall>e\<in>set entities. \<not> sublist e ?t"
    by (simp add: has_entity_def list_ex_iff)
  then have "replace ''&amp;'' n1 ?t = ?t" "replace ''&lt;'' n2 ?t = ?t"
    "replace ''&gt;'' n3 ?t = ?t" "replace ''&quot;'' n4 ?t = ?t"
    "replace ''&apos;'' n5 ?t = ?t" for n1 n2 n3 n4 n5
    by (simp_all add: entities_def replace_absent)
  then show ?thesis
    by (simp add: clean_text_def Let_def strip_def)
qed

text \<open>
  C7. On every string that contains none of the five XML escape sequences, the text
  normalizer is idempotent: normalizing a second time changes nothing.
\<close>

theorem clean_text_idempotent:
  assumes "\<not> has_entity x"
  shows "clean_text (clean_text x) = clean_text x"
proof -
  let ?y = "strip (collapse_ws (strip_tags x))"
  have y: "clean_text x = ?y" using assms by (rule clean_text_no_entity)
  have "\<not> has_entity ?y"
    using assms by (simp add: no_entity_strip_tags no_entity_collapse_ws no_entity_strip)
  then have "clean_text ?y = strip (collapse_ws (strip_tags ?y))"
    by (rule clean_text_no_entity)
  also have "strip_tags ?y = ?y"
    by (simp add: strip_tags_notag notag_strip notag_collapse_ws notag_strip_tags)
  also have "collapse_ws ?y = ?y"
    by (simp add: collapse_ws_wsnorm wsnorm_strip wsnorm_collapse_ws)
  also have "strip ?y = ?y" by (rule strip_idem)
  finally show ?thesis using y by simp
qed

theorem clean_text_idempotent_witness:
  "\<not> has_entity ''a <b>c</b>   d <> '' \<and> clean_text ''a <b>c</b>   d <> '' = ''a c d <>''
   \<and> clean_text (clean_text ''a <b>c</b>   d <> '') = clean_text ''a <b>c</b>   d <> ''"
proof -
  have h: "\<not> has_entity ''a <b>c</b>   d <> ''" by code_simp
  have v: "clean_text ''a <b>c</b>   d <> '' = ''a c d <>''" by code_simp
  from h v clean_text_idempotent [OF h] show ?thesis by simp
qed

text \<open>
  C10. The five replacements run one after the other, \<open>&amp;\<close> first, so a doubly
  encoded entity is decoded twice: the ampersand produced by the first replacement forms
  a new escape sequence that a later replacement decodes.
\<close>

theorem clean_text_cascade:
  "replace ''&amp;'' ''&'' ''&amp;lt;x&amp;gt;'' = ''&lt;x&gt;''
   \<and> clean_text ''&amp;lt;x&amp;gt;'' = ''<x>''"
  by code_simp

section \<open>Properties of the records\<close>

subsection \<open>Dictionaries\<close>

lemma keys_setitem:
  "map fst (setitem k v d) = (if k \<in> set (map fst d) then map fst d else map fst d @ [k])"
  by (simp add: setitem_def update_keys)

lemma map_of_setitem: "map_of (setitem k v d) = (map_of d)(k \<mapsto> v)"
  by (simp add: setitem_def update_conv')

lemma keys_dict_update:
  "set (map fst kvs) \<subseteq> set (map fst d) \<Longrightarrow> map fst (dict_update kvs d) = map fst d"
proof (induction kvs arbitrary: d)
  case Nil
  then show ?case by (simp add: dict_update_def)
next
  case (Cons a kvs)
  then have k: "map fst (setitem (fst a) (snd a) d) = map fst d"
    by (simp add: keys_setitem)
  with Cons.prems have "set (map fst kvs) \<subseteq> set (map fst (setitem (fst a) (snd a) d))"
    by simp
  then have "map fst (dict_update kvs (setitem (fst a) (snd a) d))
      = map fst (setitem (fst a) (snd a) d)"
    by (rule Cons.IH)
  with k show ?case by (simp add: dict_update_def)
qed

lemma map_of_dict_update_other:
  "k \<notin> set (map fst kvs) \<Longrightarrow> map_of (dict_update kvs d) k = map_of d k"
  unfolding dict_update_def
  by (induction kvs arbitrary: d) (simp_all add: map_of_setitem)

lemma map_of_dict_update_in:
  "distinct (map fst kvs) \<Longrightarrow> (k, v) \<in> set kvs \<Longrightarrow> map_of (dict_update kvs d) k = Some v"
proof (induction kvs arbitrary: d)
  case Nil
  then show ?case by simp
next
  case (Cons a kvs)
  show ?case
  proof (cases "(k, v) = a")
    case True
    with Cons.prems(1) have "k \<notin> set (map fst kvs)" by (cases a) auto
    then have "map_of (dict_update kvs (setitem (fst a) (snd a) d)) k
        = map_of (setitem (fst a) (snd a) d) k"
      by (rule map_of_dict_update_other)
    with True show ?thesis by (auto simp: dict_update_def map_of_setitem)
  next
    case False
    with Cons.prems have "distinct (map fst kvs)" and "(k, v) \<in> set kvs" by auto
    then have "map_of (dict_update kvs (setitem (fst a) (snd a) d)) k = Some v"
      by (rule Cons.IH)
    then show ?thesis by (simp add: dict_update_def)
  qed
qed

lemma dict_update_pred:
  assumes "\<And>k v. map_of d k = Some v \<Longrightarrow> P k v"
    and "\<And>k v. (k, v) \<in> set kvs \<Longrightarrow> P k v"
    and "map_of (dict_update kvs d) k = Some v"
  shows "P k v"
  using assms
proof (induction kvs arbitrary: d)
  case Nil
  then show ?case by (simp add: dict_update_def)
next
  case (Cons a kvs)
  have "P k v"
  proof (rule Cons.IH [of "setitem (fst a) (snd a) d"])
    fix k' v' assume "map_of (setitem (fst a) (snd a) d) k' = Some v'"
    then show "P k' v'"
      using Cons.prems(1) [of k' v'] Cons.prems(2) [of "fst a" "snd a"]
      by (auto simp: map_of_setitem split: if_splits)
  next
    fix k' v' assume "(k', v') \<in> set kvs"
    then show "P k' v'" using Cons.prems(2) by simp
  next
    show "map_of (dict_update kvs (setitem (fst a) (snd a) d)) k = Some v"
      using Cons.prems(3) by (simp add: dict_update_def)
  qed
  then show ?case .
qed

subsection \<open>The record of CAPP.py\<close>

lemma keys_capp_data: "map fst capp_data = capp_keys"
  by (simp add: capp_data_def comp_def)

lemma map_of_capp_data: "k \<in> set capp_keys \<Longrightarrow> map_of capp_data k = Some (Str [])"
  by (simp add: capp_data_def map_of_map_restrict)

lemma keys_meta_commun_block:
  "set [''id'', ''ancien_id'', ''origine'', ''url'', ''nature''] \<subseteq> set (map fst d)
   \<Longrightarrow> map fst (meta_commun_block root d) = map fst d"
  by (simp add: meta_commun_block_def keys_dict_update split: option.splits)

lemma keys_meta_juri_block:
  "set [''titre'', ''date_decision'', ''juridiction'', ''numero'', ''solution'']
     \<subseteq> set (map fst d)
   \<Longrightarrow> map fst (meta_juri_block root d) = map fst d"
  by (simp add: meta_juri_block_def meta_juri_fields_def keys_dict_update split: option.splits)

lemma keys_capp_meta_juri_judi:
  "set [''numero_affaire'', ''formation'', ''siege_appel'', ''juridiction_premiere_instance'',
        ''lieu_premiere_instance'', ''president'', ''avocat_general'', ''avocats'',
        ''rapporteur''] \<subseteq> set (map fst d)
   \<Longrightarrow> map fst (capp_meta_juri_judi root d) = map fst d"
  by (simp add: capp_meta_juri_judi_def keys_dict_update split: option.splits)

lemma keys_full_text_block:
  "key \<in> set (map fst d) \<Longrightarrow> map fst (full_text_block tg key root d) = map fst d"
  by (simp add: full_text_block_def keys_setitem split: option.splits)

lemma keys_capp_extract: "map fst (capp_extract root) = capp_keys"
proof -
  let ?d1 = "meta_commun_block root capp_data"
  let ?d2 = "meta_juri_block root ?d1"
  let ?d3 = "capp_meta_juri_judi root ?d2"
  let ?d4 = "full_text_block ''CONTENU'' ''contenu'' root ?d3"
  have k1: "map fst ?d1 = capp_keys"
    by (subst keys_meta_commun_block) (simp_all add: keys_capp_data, simp add: capp_keys_def)
  have k2: "map fst ?d2 = capp_keys"
    by (subst keys_meta_juri_block) (simp_all add: k1, simp add: capp_keys_def)
  have k3: "map fst ?d3 = capp_keys"
    by (subst keys_capp_meta_juri_judi) (simp_all add: k2, simp add: capp_keys_def)
  have k4: "map fst ?d4 = capp_keys"
    by (subst keys_full_text_block) (simp_all add: k3, simp add: capp_keys_def)
  show ?thesis
    unfolding capp_extract_def
    by (subst keys_full_text_block) (simp_all add: k4, simp add: capp_keys_def)
qed

lemma other_meta_commun_block:
  "k \<notin> set [''id'', ''ancien_id'', ''origine'', ''url'', ''nature'']
   \<Longrightarrow> map_of (meta_commun_block root d) k = map_of d k"
  by (simp add: meta_commun_block_def map_of_dict_update_other split: option.splits)

lemma other_meta_juri_block:
  "k \<notin> set [''titre'', ''date_decision'', ''juridiction'', ''numero'', ''solution'']
   \<Longrightarrow> map_of (meta_juri_block root d) k = map_of d k"
  by (simp add: meta_juri_block_def meta_juri_fields_def map_of_dict_update_other
      split: option.splits)

lemma other_capp_meta_juri_judi:
  "k \<notin> set [''numero_affaire'', ''formation'', ''siege_appel'',
        ''juridiction_premiere_instance'', ''lieu_premiere_instance'', ''president'',
        ''avocat_general'', ''avocats'', ''rapporteur'']
   \<Longrightarrow> map_of (capp_meta_juri_judi root d) k = map_of d k"
  by (simp add: capp_meta_juri_judi_def map_of_dict_update_other split: option.splits)

lemma other_full_text_block:
  "k \<noteq> key \<Longrightarrow> map_of (full_text_block tg key root d) k = map_of d k"
  by (simp add: full_text_block_def map_of_setitem split: option.splits)

lemma value_full_text_block:
  "map_of (full_text_block tg key root d) key =
     (case find_el root (Descendant tg) of None \<Rightarrow> map_of d key
      | Some found \<Rightarrow> Some (Str (clean_text (concat (itertext found)))))"
  by (simp add: full_text_block_def map_of_setitem split: option.splits)

lemma value_meta_commun_block:
  assumes "(fld, k) \<in> set [(''ID'', ''id''), (''ANCIEN_ID'', ''ancien_id''),
      (''ORIGINE'', ''origine''), (''URL'', ''url''), (''NATURE'', ''nature'')]"
    and "map_of d k = Some (Str [])"
  shows "map_of (meta_commun_block root d) k = Some (rule_value root ''META_COMMUN'' fld)"
proof (cases "find_el root (Descendant ''META_COMMUN'')")
  case None
  with assms(2) show ?thesis by (simp add: meta_commun_block_def rule_value_def)
next
  case (Some b)
  have "map_of (dict_update
          [(''id'', Str (get_element_text b (Child ''ID''))),
           (''ancien_id'', Str (get_element_text b (Child ''ANCIEN_ID''))),
           (''origine'', Str (get_element_text b (Child ''ORIGINE''))),
           (''url'', Str (get_element_text b (Child ''URL''))),
           (''nature'', Str (get_element_text b (Child ''NATURE'')))] d) k
        = Some (Str (get_element_text b (Child fld)))"
    using assms(1) by (intro map_of_dict_update_in) auto
  with Some show ?thesis by (simp add: meta_commun_block_def rule_value_def)
qed

lemma value_meta_juri_block:
  assumes "(fld, k) \<in> set [(''TITRE'', ''titre''), (''DATE_DEC'', ''date_decision''),
      (''JURIDICTION'', ''juridiction''), (''NUMERO'', ''numero''), (''SOLUTION'', ''solution'')]"
    and "map_of d k = Some (Str [])"
  shows "map_of (meta_juri_block root d) k = Some (rule_value root ''META_JURI'' fld)"
proof (cases "find_el root (Descendant ''META_JURI'')")
  case None
  with assms(2) show ?thesis by (simp add: meta_juri_block_def rule_value_def)
next
  case (Some b)
  have "map_of (dict_update (meta_juri_fields b) d) k = Some (Str (get_element_text b (Child fld)))"
    using assms(1) unfolding meta_juri_fields_def by (intro map_of_dict_update_in) auto
  with Some show ?thesis by (simp add: meta_juri_block_def rule_value_def)
qed

lemma value_capp_meta_juri_judi:
  assumes "(fld, k) \<in> set [(''FORMATION'', ''formation''), (''SIEGE_APPEL'', ''siege_appel''),
      (''JURI_PREM'', ''juridiction_premiere_instance''),
      (''LIEU_PREM'', ''lieu_premiere_instance''), (''PRESIDENT'', ''president''),
      (''AVOCAT_GL'', ''avocat_general''), (''AVOCATS'', ''avocats''),
      (''RAPPORTEUR'', ''rapporteur'')]"
    and "map_of d k = Some (Str [])"
  shows "map_of (capp_meta_juri_judi root d) k = Some (rule_value root ''META_JURI_JUDI'' fld)"
proof (cases "find_el root (Descendant ''META_JURI_JUDI'')")
  case None
  with assms(2) show ?thesis by (simp add: capp_meta_juri_judi_def rule_value_def)
next
  case (Some b)
  show ?thesis
    unfolding capp_meta_juri_judi_def rule_value_def Some option.case
    using assms(1) by (intro map_of_dict_update_in) auto
qed

lemma capp_commun_values:
  assumes "(fld, key) \<in> set [(''ID'', ''id''),
      (''ANCIEN_ID'', ''ancien_id''), (''ORIGINE'', ''origine''), (''URL'', ''url''),
      (''NATURE'', ''nature'')]"
  shows "map_of (capp_extract root) key = Some (rule_value root ''META_COMMUN'' fld)"
proof -
  from assms have k: "key \<in> set [''id'', ''ancien_id'', ''origine'', ''url'', ''nature'']"
    by auto
  then have kk: "key \<in> set capp_keys" by (auto simp: capp_keys_def)
  from k have n1: "key \<noteq> ''sommaire''" and n2: "key \<noteq> ''contenu''" by auto
  from k have n3: "key \<notin> set [''numero_affaire'', ''formation'', ''siege_appel'',
        ''juridiction_premiere_instance'', ''lieu_premiere_instance'', ''president'',
        ''avocat_general'', ''avocats'', ''rapporteur'']" by auto
  from k have n4: "key \<notin> set [''titre'', ''date_decision'', ''juridiction'', ''numero'',
        ''solution'']" by auto
  have "map_of (capp_extract root) key = map_of (meta_commun_block root capp_data) key"
    unfolding capp_extract_def
    by (simp only: other_full_text_block [OF n1] other_full_text_block [OF n2]
        other_capp_meta_juri_judi [OF n3] other_meta_juri_block [OF n4])
  also have "\<dots> = Some (rule_value root ''META_COMMUN'' fld)"
    using assms map_of_capp_data [OF kk] by (rule value_meta_commun_block)
  finally show ?thesis .
qed

lemma capp_juri_values:
  assumes "(fld, key) \<in> set [(''TITRE'', ''titre''),
      (''DATE_DEC'', ''date_decision''), (''JURIDICTION'', ''juridiction''),
      (''NUMERO'', ''numero''), (''SOLUTION'', ''solution'')]"
  shows "map_of (capp_extract root) key = Some (rule_value root ''META_JURI'' fld)"
proof -
  let ?d = "meta_commun_block root capp_data"
  from assms have k: "key \<in> set [''titre'', ''date_decision'', ''juridiction'', ''numero'',
        ''solution'']" by auto
  then have kk: "key \<in> set capp_keys" by (auto simp: capp_keys_def)
  from k have n1: "key \<noteq> ''sommaire''" and n2: "key \<noteq> ''contenu''" by auto
  from k have n3: "key \<notin> set [''numero_affaire'', ''formation'', ''siege_appel'',
        ''juridiction_premiere_instance'', ''lieu_premiere_instance'', ''president'',
        ''avocat_general'', ''avocats'', ''rapporteur'']" by auto
  from k have n4: "key \<notin> set [''id'', ''ancien_id'', ''origine'', ''url'', ''nature'']" by auto
  have d: "map_of ?d key = Some (Str [])"
    by (simp only: other_meta_commun_block [OF n4] map_of_capp_data [OF kk])
  have "map_of (capp_extract root) key = map_of (meta_juri_block root ?d) key"
    unfolding capp_extract_def
    by (simp only: other_full_text_block [OF n1] other_full_text_block [OF n2]
        other_capp_meta_juri_judi [OF n3])
  also have "\<dots> = Some (rule_value root ''META_JURI'' fld)"
    using assms d by (rule value_meta_juri_block)
  finally show ?thesis .
qed

lemma capp_judi_values:
  assumes "(fld, key) \<in> set [(''FORMATION'', ''formation''),
      (''SIEGE_APPEL'', ''siege_appel''), (''JURI_PREM'', ''juridiction_premiere_instance''),
      (''LIEU_PREM'', ''lieu_premiere_instance''), (''PRESIDENT'', ''president''),
      (''AVOCAT_GL'', ''avocat_general''), (''AVOCATS'', ''avocats''),
      (''RAPPORTEUR'', ''rapporteur'')]"
  shows "map_of (capp_extract root) key = Some (rule_value root ''META_JURI_JUDI'' fld)"
proof -
  let ?d = "meta_juri_block root (meta_commun_block root capp_data)"
  from assms have k: "key \<in> set [''formation'', ''siege_appel'',
        ''juridiction_premiere_instance'', ''lieu_premiere_instance'', ''president'',
        ''avocat_general'', ''avocats'', ''rapporteur'']" by auto
  then have kk: "key \<in> set capp_keys" by (auto simp: capp_keys_def)
  from k have n1: "key \<noteq> ''sommaire''" and n2: "key \<noteq> ''contenu''" by auto
  from k have n3: "key \<notin> set [''titre'', ''date_decision'', ''juridiction'', ''numero'',
        ''solution'']" by auto
  from k have n4: "key \<notin> set [''id'', ''ancien_id'', ''origine'', ''url'', ''nature'']" by auto
  have d: "map_of ?d key = Some (Str [])"
    by (simp only: other_meta_juri_block [OF n3] other_meta_commun_block [OF n4]
        map_of_capp_data [OF kk])
  have "map_of (capp_extract root) key = map_of (capp_meta_juri_judi root ?d) key"
    unfolding capp_extract_def
    by (simp only: other_full_text_block [OF n1] other_full_text_block [OF n2])
  also have "\<dots> = Some (rule_value root ''META_JURI_JUDI'' fld)"
    using assms d by (rule value_capp_meta_juri_judi)
  finally show ?thesis .
qed

lemma capp_full_text_values:
  "map_of (capp_extract root) ''contenu'' =
     Some (Str (case find_el root (Descendant ''CONTENU'') of None \<Rightarrow> []
                | Some c \<Rightarrow> clean_text (concat (itertext c))))"
  "map_of (capp_extract root) ''sommaire'' =
     Some (Str (case find_el root (Descendant ''SOMMAIRE'') of None \<Rightarrow> []
                | Some c \<Rightarrow> clean_text (concat (itertext c))))"
proof -
  have c: "map_of (capp_meta_juri_judi root (meta_juri_block root
             (meta_commun_block root capp_data))) ''contenu'' = Some (Str [])"
    by (simp add: other_capp_meta_juri_judi other_meta_juri_block other_meta_commun_block
        map_of_capp_data capp_keys_def)
  have s: "map_of (capp_meta_juri_judi root (meta_juri_block root
             (meta_commun_block root capp_data))) ''sommaire'' = Some (Str [])"
    by (simp add: other_capp_meta_juri_judi other_meta_juri_block other_meta_commun_block
        map_of_capp_data capp_keys_def)
  show "map_of (capp_extract root) ''contenu'' =
     Some (Str (case find_el root (Descendant ''CONTENU'') of None \<Rightarrow> []
                | Some c \<Rightarrow> clean_text (concat (itertext c))))"
    unfolding capp_extract_def
    by (simp add: other_full_text_block value_full_text_block c split: option.splits)
  show "map_of (capp_extract root) ''sommaire'' =
     Some (Str (case find_el root (Descendant ''SOMMAIRE'') of None \<Rightarrow> []
                | Some c \<Rightarrow> clean_text (concat (itertext c))))"
    unfolding capp_extract_def
    by (simp add: other_full_text_block value_full_text_block s split: option.splits)
qed

lemma capp_parse_Some:
  "fst (capp_parse_xml_file f) = Some d \<longleftrightarrow> (\<exists>root. content f = WellFormed root \<and> d = capp_extract root)"
  by (auto simp: capp_parse_xml_file_def capp_try_def ET_parse_def split: document.splits)

lemma capp_rules_all:
  "list_all (\<lambda>(blk, fld, key). map_of (capp_extract root) key = Some (rule_value root blk fld))
     capp_rules"
  unfolding capp_rules_def list.pred_inject prod.case
  by (intro conjI;
      ((rule capp_commun_values capp_juri_values capp_judi_values, simp) | simp))

lemma capp_rule_values:
  assumes "(blk, fld, key) \<in> set capp_rules"
  shows "map_of (capp_extract root) key = Some (rule_value root blk fld)"
  using capp_rules_all [of root] assms unfolding list_all_iff by blast

lemma capp_values_str:
  "list_all (\<lambda>k. k \<noteq> ''numero_affaire'' \<longrightarrow> (\<exists>s. map_of (capp_extract root) k = Some (Str s)))
     capp_keys"
  using capp_rules_all [of root]
  unfolding capp_rules_def capp_keys_def list.pred_inject prod.case
  by (simp add: rule_value_def capp_full_text_values)

subsection \<open>The record of CNIL.py\<close>

lemma keys_cnil_fields:
  "distinct (map lower names) \<Longrightarrow> set (map lower names) \<inter> set (map fst d) = {}
   \<Longrightarrow> map fst (cnil_fields meta names d) = map fst d @ map lower names"
proof (induction names arbitrary: d)
  case Nil
  then show ?case by (simp add: cnil_fields_def)
next
  case (Cons n ns)
  let ?d = "setitem (lower n) (Str (findtext meta (Child n) [])) d"
  from Cons.prems have k: "map fst ?d = map fst d @ [lower n]"
    by (auto simp: keys_setitem)
  with Cons.prems have "set (map lower ns) \<inter> set (map fst ?d) = {}" by auto
  moreover from Cons.prems have "distinct (map lower ns)" by simp
  ultimately have "map fst (cnil_fields meta ns ?d) = map fst ?d @ map lower ns"
    by (rule Cons.IH [rotated])
  with k show ?case by (simp add: cnil_fields_def)
qed

lemma str_cnil_fields:
  "(\<And>k v. map_of d k = Some v \<Longrightarrow> is_str v)
   \<Longrightarrow> map_of (cnil_fields meta names d) k = Some v \<Longrightarrow> is_str v"
proof (induction names arbitrary: d)
  case Nil
  then show ?case by (simp add: cnil_fields_def)
next
  case (Cons n ns)
  let ?d = "setitem (lower n) (Str (findtext meta (Child n) [])) d"
  have "is_str v"
  proof (rule Cons.IH [of ?d])
    fix k' v' assume "map_of ?d k' = Some v'"
    then show "is_str v'"
      using Cons.prems(1) [of k' v']
      by (auto simp: map_of_setitem is_str_def split: if_splits)
  next
    show "map_of (cnil_fields meta ns ?d) k = Some v"
      using Cons.prems(2) by (simp add: cnil_fields_def)
  qed
  then show ?case .
qed

lemma lower_names:
  "lower ''ID'' = ''id''" "lower ''ORIGINE'' = ''origine''" "lower ''URL'' = ''url''"
  "lower ''NATURE'' = ''nature''" "lower ''TITREFULL'' = ''titrefull''"
  "lower ''NUMERO'' = ''numero''" "lower ''NATURE_DELIB'' = ''nature_delib''"
  "lower ''DATE_TEXTE'' = ''date_texte''" "lower ''DATE_PUBLI'' = ''date_publi''"
  "lower ''ETAT_JURIDIQUE'' = ''etat_juridique''"
  by code_simp+

lemma keys_cnil_meta_commun:
  "map fst (cnil_meta_commun root []) =
     (if find_el root (Descendant ''META_COMMUN'') = None then []
      else [''id'', ''origine'', ''url'', ''nature''])"
proof (cases "find_el root (Descendant ''META_COMMUN'')")
  case None
  then show ?thesis by (simp add: cnil_meta_commun_def)
next
  case (Some meta)
  have "map fst (cnil_fields meta [''ID'', ''ORIGINE'', ''URL'', ''NATURE''] [])
      = map fst ([] :: dict) @ map lower [''ID'', ''ORIGINE'', ''URL'', ''NATURE'']"
    by (rule keys_cnil_fields) (simp_all add: lower_names)
  then have "map fst (cnil_fields meta [''ID'', ''ORIGINE'', ''URL'', ''NATURE''] [])
      = [''id'', ''origine'', ''url'', ''nature'']"
    by (simp add: lower_names)
  with Some show ?thesis by (simp add: cnil_meta_commun_def)
qed

lemma keys_cnil_record:
  assumes "find_el root (Descendant ''META_CNIL'') = Some meta"
  shows "map fst (cnil_contenu root (cnil_fields meta [''TITREFULL'', ''NUMERO'',
            ''NATURE_DELIB'', ''DATE_TEXTE'', ''DATE_PUBLI'', ''ETAT_JURIDIQUE'']
            (cnil_meta_commun root []))) =
     (if find_el root (Descendant ''META_COMMUN'') = None then []
      else [''id'', ''origine'', ''url'', ''nature''])
     @ [''titrefull'', ''numero'', ''nature_delib'', ''date_texte'', ''date_publi'',
        ''etat_juridique'']
     @ (if find_el root (Descendant ''CONTENU'') = None then [] else [''contenu''])"
proof -
  let ?names = "[''TITREFULL'', ''NUMERO'', ''NATURE_DELIB'', ''DATE_TEXTE'', ''DATE_PUBLI'',
     ''ETAT_JURIDIQUE'']"
  let ?d = "cnil_meta_commun root []"
  have "map fst (cnil_fields meta ?names ?d) = map fst ?d @ map lower ?names"
    by (rule keys_cnil_fields) (simp_all add: lower_names keys_cnil_meta_commun)
  then have k: "map fst (cnil_fields meta ?names ?d) =
      (if find_el root (Descendant ''META_COMMUN'') = None then []
       else [''id'', ''origine'', ''url'', ''nature''])
      @ [''titrefull'', ''numero'', ''nature_delib'', ''date_texte'', ''date_publi'',
         ''etat_juridique'']"
    by (simp add: lower_names keys_cnil_meta_commun)
  show ?thesis
    by (cases "find_el root (Descendant ''CONTENU'')")
       (simp_all add: cnil_contenu_def keys_setitem k)
qed

lemma str_cnil_record:
  assumes "map_of (cnil_contenu root (cnil_fields meta names (cnil_meta_commun root []))) k = Some v"
  shows "is_str v"
proof -
  have c: "is_str v'" if "map_of (cnil_meta_commun root []) k' = Some v'" for k' v'
  proof (cases "find_el root (Descendant ''META_COMMUN'')")
    case None
    with that show ?thesis by (simp add: cnil_meta_commun_def)
  next
    case (Some m)
    with that have "map_of (cnil_fields m [''ID'', ''ORIGINE'', ''URL'', ''NATURE''] []) k' = Some v'"
      by (simp add: cnil_meta_commun_def)
    then show ?thesis by (rule str_cnil_fields [rotated]) simp
  qed
  have f: "is_str v'" if "map_of (cnil_fields meta names (cnil_meta_commun root [])) k' = Some v'"
    for k' v'
    using that by (rule str_cnil_fields [rotated]) (rule c)
  from assms show ?thesis
    by (cases "find_el root (Descendant ''CONTENU'')")
       (auto simp: cnil_contenu_def map_of_setitem is_str_def dest: f split: if_splits)
qed

lemma parse_cnil_Inr:
  "parse_cnil_xml_file g = Inr d \<longleftrightarrow>
     (\<exists>root meta. content g = WellFormed root
        \<and> find_el root (Descendant ''META_CNIL'') = Some meta
        \<and> d = cnil_contenu root (cnil_fields meta [''TITREFULL'', ''NUMERO'',
            ''NATURE_DELIB'', ''DATE_TEXTE'', ''DATE_PUBLI'', ''ETAT_JURIDIQUE'']
            (cnil_meta_commun root [])))"
  by (auto simp: parse_cnil_xml_file_def cnil_try_def ET_parse_def Let_def
      split: document.splits option.splits sum.splits)

lemma rule_value_absent:
  "find_el root (Descendant blk) = None
     \<or> (\<exists>b. find_el root (Descendant blk) = Some b \<and> find_el b (Child fld) = None)
   \<Longrightarrow> rule_value root blk fld = Str []"
  by (auto simp: rule_value_def get_element_text_def)


lemma capp_absent_values:
  assumes "(blk, fld, key) \<in> set capp_rules"
    and "find_el root (Descendant blk) = None
          \<or> (\<exists>b. find_el root (Descendant blk) = Some b \<and> find_el b (Child fld) = None)"
  shows "map_of (capp_extract root) key = Some (Str [])"
  using capp_rule_values [OF assms(1), of root] rule_value_absent [OF assms(2)] by simp

lemma capp_numero_affaire_value:
  "map_of (capp_extract root) ''numero_affaire'' =
     Some (case find_el root (Descendant ''META_JURI_JUDI'') of None \<Rightarrow> Str []
           | Some b \<Rightarrow>
               (case find_el b (Descendant ''NUMERO_AFFAIRE'') of None \<Rightarrow> Str []
                | Some n \<Rightarrow> (case el_text n of None \<Rightarrow> PyNone | Some t \<Rightarrow> Str t)))"
proof -
  let ?d = "meta_juri_block root (meta_commun_block root capp_data)"
  have d: "map_of ?d ''numero_affaire'' = Some (Str [])"
    by (simp add: other_meta_juri_block other_meta_commun_block map_of_capp_data capp_keys_def)
  have e: "map_of (capp_extract root) ''numero_affaire''
      = map_of (capp_meta_juri_judi root ?d) ''numero_affaire''"
    unfolding capp_extract_def by (simp add: other_full_text_block)
  show ?thesis
  proof (cases "find_el root (Descendant ''META_JURI_JUDI'')")
    case None
    with d e show ?thesis by (simp add: capp_meta_juri_judi_def)
  next
    case (Some b)
    show ?thesis
      unfolding e capp_meta_juri_judi_def Some option.case
      by (rule map_of_dict_update_in) simp_all
  qed
qed

lemma other_cnil_fields:
  "k \<notin> set (map lower names) \<Longrightarrow> map_of (cnil_fields meta names d) k = map_of d k"
  unfolding cnil_fields_def
  by (induction names arbitrary: d) (simp_all add: map_of_setitem)

lemma value_cnil_fields:
  "distinct (map lower names) \<Longrightarrow> n \<in> set names
   \<Longrightarrow> map_of (cnil_fields meta names d) (lower n) = Some (Str (findtext meta (Child n) []))"
proof (induction names arbitrary: d)
  case Nil
  then show ?case by simp
next
  case (Cons a ns)
  let ?d = "setitem (lower a) (Str (findtext meta (Child a) [])) d"
  have step: "cnil_fields meta (a # ns) d = cnil_fields meta ns ?d"
    by (simp add: cnil_fields_def)
  show ?case
  proof (cases "n \<in> set ns")
    case True
    with Cons show ?thesis unfolding step by simp
  next
    case False
    with Cons.prems have n: "n = a" and "lower a \<notin> set (map lower ns)" by auto
    then have "map_of (cnil_fields meta ns ?d) (lower a) = map_of ?d (lower a)"
      by (intro other_cnil_fields)
    then show ?thesis unfolding step n by (simp add: map_of_setitem)
  qed
qed

lemma other_cnil_contenu:
  "k \<noteq> ''contenu'' \<Longrightarrow> map_of (cnil_contenu root d) k = map_of d k"
  by (simp add: cnil_contenu_def map_of_setitem split: option.splits)

lemma cnil_rule_values:
  "list_all (\<lambda>(fld, key). map_of (cnil_contenu root (cnil_fields meta [''TITREFULL'',
        ''NUMERO'', ''NATURE_DELIB'', ''DATE_TEXTE'', ''DATE_PUBLI'', ''ETAT_JURIDIQUE''] d)) key
      = Some (Str (findtext meta (Child fld) []))) cnil_rules"
proof -
  let ?names = "[''TITREFULL'', ''NUMERO'', ''NATURE_DELIB'', ''DATE_TEXTE'', ''DATE_PUBLI'',
     ''ETAT_JURIDIQUE'']"
  have v: "map_of (cnil_contenu root (cnil_fields meta ?names d)) (lower n)
      = Some (Str (findtext meta (Child n) []))" if "n \<in> set ?names" for n
  proof -
    from that have "lower n \<noteq> ''contenu''" by (auto simp: lower_names)
    then have "map_of (cnil_contenu root (cnil_fields meta ?names d)) (lower n)
        = map_of (cnil_fields meta ?names d) (lower n)"
      by (rule other_cnil_contenu)
    also have "\<dots> = Some (Str (findtext meta (Child n) []))"
      using that by (intro value_cnil_fields) (simp_all add: lower_names)
    finally show ?thesis .
  qed
  show ?thesis
    unfolding cnil_rules_def list.pred_inject prod.case
    using v [of "''TITREFULL''"] v [of "''NUMERO''"] v [of "''NATURE_DELIB''"]
      v [of "''DATE_TEXTE''"] v [of "''DATE_PUBLI''"] v [of "''ETAT_JURIDIQUE''"]
    by (simp add: lower_names)
qed

lemma cnil_commun_rule_values:
  assumes "find_el root (Descendant ''META_COMMUN'') = Some mc"
  shows "list_all (\<lambda>(fld, key). map_of (cnil_contenu root (cnil_fields meta [''TITREFULL'',
        ''NUMERO'', ''NATURE_DELIB'', ''DATE_TEXTE'', ''DATE_PUBLI'', ''ETAT_JURIDIQUE'']
        (cnil_meta_commun root []))) key
      = Some (Str (findtext mc (Child fld) []))) cnil_commun_rules"
proof -
  let ?names = "[''TITREFULL'', ''NUMERO'', ''NATURE_DELIB'', ''DATE_TEXTE'', ''DATE_PUBLI'',
     ''ETAT_JURIDIQUE'']"
  let ?cn = "[''ID'', ''ORIGINE'', ''URL'', ''NATURE'']"
  have dc: "cnil_meta_commun root [] = cnil_fields mc ?cn []"
    using assms by (simp add: cnil_meta_commun_def)
  have v: "map_of (cnil_contenu root (cnil_fields meta ?names (cnil_fields mc ?cn []))) (lower n)
      = Some (Str (findtext mc (Child n) []))" if "n \<in> set ?cn" for n
  proof -
    from that have 1: "lower n \<noteq> ''contenu''" by (auto simp: lower_names)
    from that have 2: "lower n \<notin> set (map lower ?names)" by (auto simp: lower_names)
    have "map_of (cnil_contenu root (cnil_fields meta ?names (cnil_fields mc ?cn []))) (lower n)
        = map_of (cnil_fields mc ?cn []) (lower n)"
      by (simp only: other_cnil_contenu [OF 1] other_cnil_fields [OF 2])
    also have "\<dots> = Some (Str (findtext mc (Child n) []))"
      using that by (intro value_cnil_fields) (simp_all add: lower_names)
    finally show ?thesis .
  qed
  show ?thesis
    unfolding cnil_commun_rules_def list.pred_inject prod.case dc
    using v [of "''ID''"] v [of "''ORIGINE''"] v [of "''URL''"] v [of "''NATURE''"]
    by (simp add: lower_names)
qed

lemma findtext_absent: "find_el e p = None \<Longrightarrow> findtext e p [] = []"
  by (simp add: findtext_def)

lemma capp_rule_facts:
  "\<forall>(blk, fld, key)\<in>set capp_rules.
     map_of (capp_extract root) key = Some (rule_value root blk fld)
     \<and> (find_el root (Descendant blk) = None
         \<or> (\<exists>b. find_el root (Descendant blk) = Some b \<and> find_el b (Child fld) = None)
         \<longrightarrow> map_of (capp_extract root) key = Some (Str []))"
proof (intro ballI)
  fix x assume x: "x \<in> set capp_rules"
  obtain blk fld key where e: "x = (blk, fld, key)" by (cases x) auto
  from x e have m: "(blk, fld, key) \<in> set capp_rules" by simp
  have "map_of (capp_extract root) key = Some (rule_value root blk fld)"
    by (rule capp_rule_values [OF m])
  moreover have "find_el root (Descendant blk) = None
         \<or> (\<exists>b. find_el root (Descendant blk) = Some b \<and> find_el b (Child fld) = None)
         \<longrightarrow> map_of (capp_extract root) key = Some (Str [])"
    by (intro impI) (rule capp_absent_values [OF m])
  ultimately show "case x of (blk, fld, key) \<Rightarrow>
     map_of (capp_extract root) key = Some (rule_value root blk fld)
     \<and> (find_el root (Descendant blk) = None
         \<or> (\<exists>b. find_el root (Descendant blk) = Some b \<and> find_el b (Child fld) = None)
         \<longrightarrow> map_of (capp_extract root) key = Some (Str []))"
    unfolding e prod.case by (rule conjI)
qed

lemma capp_numero_affaire_facts:
  "(find_el root (Descendant ''META_JURI_JUDI'') = None
      \<or> (\<exists>b. find_el root (Descendant ''META_JURI_JUDI'') = Some b
              \<and> find_el b (Descendant ''NUMERO_AFFAIRE'') = None)
      \<longrightarrow> map_of (capp_extract root) ''numero_affaire'' = Some (Str []))
   \<and> (\<forall>b n t. find_el root (Descendant ''META_JURI_JUDI'') = Some b
          \<and> find_el b (Descendant ''NUMERO_AFFAIRE'') = Some n \<and> el_text n = Some t
      \<longrightarrow> map_of (capp_extract root) ''numero_affaire'' = Some (Str t))"
  unfolding capp_numero_affaire_value by auto

lemma cnil_rule_facts:
  assumes "list_all (\<lambda>(fld, key). map_of d key = Some (Str (findtext m (Child fld) []))) rules"
  shows "\<forall>(fld, key)\<in>set rules.
     map_of d key = Some (Str (findtext m (Child fld) []))
     \<and> (find_el m (Child fld) = None \<longrightarrow> map_of d key = Some (Str []))"
  using assms unfolding list_all_iff by (auto simp: findtext_absent)

text \<open>
  C1, as the spec states it, fails twice. The record of CNIL.py starts empty and receives
  the \<open>META_COMMUN\<close> keys and \<open>contenu\<close> only when those elements exist: a document
  with nothing but its \<open>META_CNIL\<close> block parses, and the record lacks five of the keys
  the docstring lists. And CAPP.py stores the raw \<open>.text\<close> of \<open>NUMERO_AFFAIRE\<close>: for an
  element without text the record maps \<open>numero_affaire\<close> to \<open>None\<close>, not to a string.
\<close>

theorem record_shape_counterexample:
  "parse_cnil_xml_file cnil_bare =
     Inr [(''titrefull'', Str []), (''numero'', Str ''2020-001''), (''nature_delib'', Str []),
          (''date_texte'', Str []), (''date_publi'', Str []), (''etat_juridique'', Str [])]
   \<and> \<not> set cnil_keys \<subseteq> set (map fst
         [(''titrefull'', Str []), (''numero'', Str ''2020-001''), (''nature_delib'', Str []),
          (''date_texte'', Str []), (''date_publi'', Str []), (''etat_juridique'', Str [])])
   \<and> fst (capp_parse_xml_file capp_file) = Some (capp_extract capp_root)
   \<and> map_of (capp_extract capp_root) ''numero_affaire'' = Some PyNone"
  by code_simp

text \<open>
  C1, amended. Every document that \<open>parse_xml_file\<close> of CAPP.py parses yields a record
  whose keys are exactly the 21 declared keys, in order; every key other than
  \<open>numero_affaire\<close> is mapped to a string; the key of every field read with
  \<open>get_element_text\<close> holds the text extracted from its block, and the empty string when
  its block or its field is absent; \<open>numero_affaire\<close> holds the empty string when its
  block or its element is absent and the element's text when it has one; \<open>contenu\<close> and
  \<open>sommaire\<close> hold the empty string without their element. Every document that
  \<open>parse_cnil_xml_file\<close> parses yields a record with the six \<open>META_CNIL\<close> keys, preceded
  by the four \<open>META_COMMUN\<close> keys iff that block exists and followed by \<open>contenu\<close> iff a
  \<open>CONTENU\<close> element exists; every field key present holds the text of its field, and
  the empty string when the field is absent from its block; all values are strings.
\<close>

theorem record_shape:
  "(fst (capp_parse_xml_file f) = Some d \<longrightarrow>
      map fst d = capp_keys
      \<and> (\<forall>k\<in>set capp_keys. k \<noteq> ''numero_affaire'' \<longrightarrow> (\<exists>s. map_of d k = Some (Str s)))
      \<and> (\<exists>root. content f = WellFormed root
            \<and> (\<forall>(blk, fld, key)\<in>set capp_rules.
                  map_of d key = Some (rule_value root blk fld)
                  \<and> (find_el root (Descendant blk) = None
                      \<or> (\<exists>b. find_el root (Descendant blk) = Some b \<and> find_el b (Child fld) = None)
                      \<longrightarrow> map_of d key = Some (Str [])))
            \<and> ((find_el root (Descendant ''META_JURI_JUDI'') = None
                  \<or> (\<exists>b. find_el root (Descendant ''META_JURI_JUDI'') = Some b
                          \<and> find_el b (Descendant ''NUMERO_AFFAIRE'') = None)
                  \<longrightarrow> map_of d ''numero_affaire'' = Some (Str []))
               \<and> (\<forall>b n t. find_el root (Descendant ''META_JURI_JUDI'') = Some b
                      \<and> find_el b (Descendant ''NUMERO_AFFAIRE'') = Some n \<and> el_text n = Some t
                  \<longrightarrow> map_of d ''numero_affaire'' = Some (Str t)))
            \<and> (find_el root (Descendant ''CONTENU'') = None
                  \<longrightarrow> map_of d ''contenu'' = Some (Str []))
            \<and> (find_el root (Descendant ''SOMMAIRE'') = None
                  \<longrightarrow> map_of d ''sommaire'' = Some (Str []))))
   \<and> (parse_cnil_xml_file g = Inr d' \<longrightarrow>
        (\<exists>root meta. content g = WellFormed root
            \<and> find_el root (Descendant ''META_CNIL'') = Some meta
            \<and> map fst d' =
                (if find_el root (Descendant ''META_COMMUN'') = None then []
                 else [''id'', ''origine'', ''url'', ''nature''])
                @ [''titrefull'', ''numero'', ''nature_delib'', ''date_texte'', ''date_publi'',
                   ''etat_juridique'']
                @ (if find_el root (Descendant ''CONTENU'') = None then [] else [''contenu''])
            \<and> (\<forall>(fld, key)\<in>set cnil_rules.
                  map_of d' key = Some (Str (findtext meta (Child fld) []))
                  \<and> (find_el meta (Child fld) = None \<longrightarrow> map_of d' key = Some (Str [])))
            \<and> (\<forall>mc. find_el root (Descendant ''META_COMMUN'') = Some mc \<longrightarrow>
                  (\<forall>(fld, key)\<in>set cnil_commun_rules.
                     map_of d' key = Some (Str (findtext mc (Child fld) []))
                     \<and> (find_el mc (Child fld) = None \<longrightarrow> map_of d' key = Some (Str [])))))
        \<and> (\<forall>k\<in>set (map fst d'). \<exists>s. map_of d' k = Some (Str s)))"
proof (intro conjI impI)
  assume "fst (capp_parse_xml_file f) = Some d"
  then obtain root where root: "content f = WellFormed root" and d: "d = capp_extract root"
    unfolding capp_parse_Some by blast
  show "map fst d = capp_keys" unfolding d by (rule keys_capp_extract)
  show "\<forall>k\<in>set capp_keys. k \<noteq> ''numero_affaire'' \<longrightarrow> (\<exists>s. map_of d k = Some (Str s))"
    using capp_values_str [of root] unfolding d list_all_iff .
  have c: "find_el root (Descendant ''CONTENU'') = None
      \<longrightarrow> map_of d ''contenu'' = Some (Str [])"
    by (simp add: d capp_full_text_values)
  have s: "find_el root (Descendant ''SOMMAIRE'') = None
      \<longrightarrow> map_of d ''sommaire'' = Some (Str [])"
    by (simp add: d capp_full_text_values)
  show "\<exists>root. content f = WellFormed root
            \<and> (\<forall>(blk, fld, key)\<in>set capp_rules.
                  map_of d key = Some (rule_value root blk fld)
                  \<and> (find_el root (Descendant blk) = None
                      \<or> (\<exists>b. find_el root (Descendant blk) = Some b \<and> find_el b (Child fld) = None)
                      \<longrightarrow> map_of d key = Some (Str [])))
            \<and> ((find_el root (Descendant ''META_JURI_JUDI'') = None
                  \<or> (\<exists>b. find_el root (Descendant ''META_JURI_JUDI'') = Some b
                          \<and> find_el b (Descendant ''NUMERO_AFFAIRE'') = None)
                  \<longrightarrow> map_of d ''numero_affaire'' = Some (Str []))
               \<and> (\<forall>b n t. find_el root (Descendant ''META_JURI_JUDI'') = Some b
                      \<and> find_el b (Descendant ''NUMERO_AFFAIRE'') = Some n \<and> el_text n = Some t
                  \<longrightarrow> map_of d ''numero_affaire'' = Some (Str t)))
            \<and> (find_el root (Descendant ''CONTENU'') = None
                  \<longrightarrow> map_of d ''contenu'' = Some (Str []))
            \<and> (find_el root (Descendant ''SOMMAIRE'') = None
                  \<longrightarrow> map_of d ''sommaire'' = Some (Str []))"
    unfolding d
    by (rule exI [of _ root])
       (intro conjI root capp_rule_facts capp_numero_affaire_facts c [unfolded d] s [unfolded d])
next
  assume "parse_cnil_xml_file g = Inr d'"
  then obtain root meta where root: "content g = WellFormed root"
    and meta: "find_el root (Descendant ''META_CNIL'') = Some meta"
    and d: "d' = cnil_contenu root (cnil_fields meta [''TITREFULL'', ''NUMERO'',
            ''NATURE_DELIB'', ''DATE_TEXTE'', ''DATE_PUBLI'', ''ETAT_JURIDIQUE'']
            (cnil_meta_commun root []))"
    unfolding parse_cnil_Inr by blast
  have r: "\<forall>(fld, key)\<in>set cnil_rules.
                  map_of d' key = Some (Str (findtext meta (Child fld) []))
                  \<and> (find_el meta (Child fld) = None \<longrightarrow> map_of d' key = Some (Str []))"
    unfolding d by (rule cnil_rule_facts [OF cnil_rule_values])
  have m: "\<forall>mc. find_el root (Descendant ''META_COMMUN'') = Some mc \<longrightarrow>
                  (\<forall>(fld, key)\<in>set cnil_commun_rules.
                     map_of d' key = Some (Str (findtext mc (Child fld) []))
                     \<and> (find_el mc (Child fld) = None \<longrightarrow> map_of d' key = Some (Str [])))"
    unfolding d by (intro allI impI) (rule cnil_rule_facts [OF cnil_commun_rule_values])
  show "\<exists>root meta. content g = WellFormed root
            \<and> find_el root (Descendant ''META_CNIL'') = Some meta
            \<and> map fst d' =
                (if find_el root (Descendant ''META_COMMUN'') = None then []
                 else [''id'', ''origine'', ''url'', ''nature''])
                @ [''titrefull'', ''numero'', ''nature_delib'', ''date_texte'', ''date_publi'',
                   ''etat_juridique'']
                @ (if find_el root (Descendant ''CONTENU'') = None then [] else [''contenu''])
            \<and> (\<forall>(fld, key)\<in>set cnil_rules.
                  map_of d' key = Some (Str (findtext meta (Child fld) []))
                  \<and> (find_el meta (Child fld) = None \<longrightarrow> map_of d' key = Some (Str [])))
            \<and> (\<forall>mc. find_el root (Descendant ''META_COMMUN'') = Some mc \<longrightarrow>
                  (\<forall>(fld, key)\<in>set cnil_commun_rules.
                     map_of d' key = Some (Str (findtext mc (Child fld) []))
                     \<and> (find_el mc (Child fld) = None \<longrightarrow> map_of d' key = Some (Str []))))"
    by (rule exI [of _ root], rule exI [of _ meta])
       (intro conjI root meta keys_cnil_record [OF meta, folded d] r m)
  show "\<forall>k\<in>set (map fst d'). \<exists>s. map_of d' k = Some (Str s)"
  proof
    fix k assume "k \<in> set (map fst d')"
    then obtain v where v: "map_of d' k = Some v"
      by (metis map_of_eq_None_iff not_None_eq set_map)
    then have "is_str v" unfolding d by (rule str_cnil_record)
    with v show "\<exists>s. map_of d' k = Some (Str s)"
      by (cases v) (simp_all add: is_str_def)
  qed
qed

theorem record_shape_witness:
  "fst (capp_parse_xml_file capp_file) = Some (capp_extract capp_root)
   \<and> map fst (capp_extract capp_root) = capp_keys
   \<and> parse_cnil_xml_file cnil_bare =
       Inr [(''titrefull'', Str []), (''numero'', Str ''2020-001''), (''nature_delib'', Str []),
            (''date_texte'', Str []), (''date_publi'', Str []), (''etat_juridique'', Str [])]
   \<and> (\<exists>s. map_of [(''titrefull'', Str []), (''numero'', Str ''2020-001''),
            (''nature_delib'', Str []), (''date_texte'', Str []), (''date_publi'', Str []),
            (''etat_juridique'', Str [])] ''numero'' = Some (Str s))"
proof -
  let ?D = "[(''titrefull'', Str []), (''numero'', Str ''2020-001''), (''nature_delib'', Str []),
            (''date_texte'', Str []), (''date_publi'', Str []), (''etat_juridique'', Str [])]"
  have h1: "fst (capp_parse_xml_file capp_file) = Some (capp_extract capp_root)"
    by (simp add: capp_parse_xml_file_def capp_try_def ET_parse_def capp_file_def)
  have h2: "parse_cnil_xml_file cnil_bare = Inr ?D"
    by code_simp
  have k: "map fst (capp_extract capp_root) = capp_keys"
    by (rule record_shape [THEN conjunct1, THEN mp, OF h1, THEN conjunct1])
  have "\<forall>k\<in>set (map fst ?D). \<exists>s. map_of ?D k = Some (Str s)"
    by (rule record_shape [THEN conjunct2, THEN mp, OF h2, THEN conjunct2])
  moreover have "''numero'' \<in> set (map fst ?D)" by simp
  ultimately have "\<exists>s. map_of ?D ''numero'' = Some (Str s)" by (rule bspec)
  with h1 h2 k show ?thesis by (intro conjI)
qed

section \<open>Field extraction\<close>














text \<open>
  C5. The attribute-reading variant returns the empty string when the element is absent,
  but \<open>None\<close> when the element is present without the attribute: \<open>Element.get\<close> is
  called without a default. The record of INCA.py and of CASS.py then maps
  \<open>publie_bulletin\<close> to \<open>None\<close>, not to a string.
\<close>

theorem publie_bulletin_none:
  "find_el judi_block (Child ''PUBLI_BULL'') = Some (Element ''PUBLI_BULL'' [] None [] None)
   \<and> publie_bulletin judi_block = PyNone
   \<and> map_of (inca_extract inca_root) ''publie_bulletin'' = Some PyNone
   \<and> map_of (cass_extract cass_root) ''publie_bulletin'' = Some PyNone
   \<and> publie_bulletin titre_block = Str []"
  by code_simp

section \<open>The document parser of JADE.py\<close>

lemma jade_clean_text_raises: "jade_clean_text s = Inl NameError"
  by (simp add: jade_clean_text_def jade_names_def)

lemma map_filter_append: "List.map_filter g (xs @ ys) = List.map_filter g xs @ List.map_filter g ys"
  by (simp add: List.map_filter_def)

lemma find_el_descendant_None:
  "find_el root (Descendant t) = None \<longleftrightarrow> t \<notin> el_tag ` set (descendants root)"
proof -
  have "find_el root (Descendant t) = None
      \<longleftrightarrow> filter (\<lambda>d. el_tag d = t) (descendants root) = []"
    by (simp add: find_el_def split: list.splits)
  also have "\<dots> \<longleftrightarrow> t \<notin> el_tag ` set (descendants root)"
    by (auto simp: filter_empty_conv)
  finally show ?thesis .
qed

lemma keys_jade_data: "map fst jade_data = jade_keys"
  by (simp add: jade_data_def comp_def)

lemma map_of_jade_data: "k \<in> set jade_keys \<Longrightarrow> map_of jade_data k = Some (Str [])"
  by (simp add: jade_data_def map_of_map_restrict)

lemma keys_jade_meta_commun:
  "set [''id'', ''ancien_id'', ''origine'', ''url'', ''nature''] \<subseteq> set (map fst d)
   \<Longrightarrow> map fst (jade_meta_commun root d) = map fst d"
  by (simp add: jade_meta_commun_def keys_dict_update split: option.splits)

lemma keys_jade_meta_juri:
  "set [''titre'', ''date_decision'', ''juridiction'', ''numero''] \<subseteq> set (map fst d)
   \<Longrightarrow> map fst (jade_meta_juri root d) = map fst d"
  by (simp add: jade_meta_juri_def keys_dict_update split: option.splits)

lemma keys_jade_meta_juri_admin:
  "set [''formation'', ''type_recours'', ''publication_recueil'', ''president'', ''avocats'',
        ''rapporteur'', ''commissaire_gouvernement''] \<subseteq> set (map fst d)
   \<Longrightarrow> map fst (jade_meta_juri_admin root d) = map fst d"
  by (simp add: jade_meta_juri_admin_def keys_dict_update split: option.splits)

lemma keys_jade_metadata: "map fst (jade_metadata root) = jade_keys"
proof -
  let ?d1 = "jade_meta_commun root jade_data"
  let ?d2 = "jade_meta_juri root ?d1"
  have k1: "map fst ?d1 = jade_keys"
    by (subst keys_jade_meta_commun) (simp_all add: keys_jade_data, simp add: jade_keys_def)
  have k2: "map fst ?d2 = jade_keys"
    by (subst keys_jade_meta_juri) (simp_all add: k1, simp add: jade_keys_def)
  show ?thesis
    unfolding jade_metadata_def
    by (subst keys_jade_meta_juri_admin) (simp_all add: k2, simp add: jade_keys_def)
qed

lemma other_jade_meta_commun:
  "k \<notin> set [''id'', ''ancien_id'', ''origine'', ''url'', ''nature'']
   \<Longrightarrow> map_of (jade_meta_commun root d) k = map_of d k"
  by (simp add: jade_meta_commun_def map_of_dict_update_other split: option.splits)

lemma other_jade_meta_juri:
  "k \<notin> set [''titre'', ''date_decision'', ''juridiction'', ''numero'']
   \<Longrightarrow> map_of (jade_meta_juri root d) k = map_of d k"
  by (simp add: jade_meta_juri_def map_of_dict_update_other split: option.splits)

lemma other_jade_meta_juri_admin:
  "k \<notin> set [''formation'', ''type_recours'', ''publication_recueil'', ''president'',
        ''avocats'', ''rapporteur'', ''commissaire_gouvernement'']
   \<Longrightarrow> map_of (jade_meta_juri_admin root d) k = map_of d k"
  by (simp add: jade_meta_juri_admin_def map_of_dict_update_other split: option.splits)

lemma value_jade_meta_commun:
  assumes "(fld, k) \<in> set [(''ID'', ''id''), (''ANCIEN_ID'', ''ancien_id''),
      (''ORIGINE'', ''origine''), (''URL'', ''url''), (''NATURE'', ''nature'')]"
    and "map_of d k = Some (Str [])"
  shows "map_of (jade_meta_commun root d) k = Some (jade_rule_value root ''META_COMMUN'' fld)"
proof (cases "find_el root (Descendant ''META_COMMUN'')")
  case None
  with assms(2) show ?thesis by (simp add: jade_meta_commun_def jade_rule_value_def)
next
  case (Some b)
  show ?thesis
    unfolding jade_meta_commun_def jade_rule_value_def Some option.case
    using assms(1) by (intro map_of_dict_update_in) auto
qed

lemma value_jade_meta_juri:
  assumes "(fld, k) \<in> set [(''TITRE'', ''titre''), (''DATE_DEC'', ''date_decision''),
      (''JURIDICTION'', ''juridiction''), (''NUMERO'', ''numero'')]"
    and "map_of d k = Some (Str [])"
  shows "map_of (jade_meta_juri root d) k = Some (jade_rule_value root ''META_JURI'' fld)"
proof (cases "find_el root (Descendant ''META_JURI'')")
  case None
  with assms(2) show ?thesis by (simp add: jade_meta_juri_def jade_rule_value_def)
next
  case (Some b)
  show ?thesis
    unfolding jade_meta_juri_def jade_rule_value_def Some option.case
    using assms(1) by (intro map_of_dict_update_in) auto
qed

lemma value_jade_meta_juri_admin:
  assumes "(fld, k) \<in> set [(''FORMATION'', ''formation''), (''TYPE_REC'', ''type_recours''),
      (''PUBLI_RECUEIL'', ''publication_recueil''), (''PRESIDENT'', ''president''),
      (''AVOCATS'', ''avocats''), (''RAPPORTEUR'', ''rapporteur''),
      (''COMMISSAIRE_GVT'', ''commissaire_gouvernement'')]"
    and "map_of d k = Some (Str [])"
  shows "map_of (jade_meta_juri_admin root d) k
     = Some (jade_rule_value root ''META_JURI_ADMIN'' fld)"
proof (cases "find_el root (Descendant ''META_JURI_ADMIN'')")
  case None
  with assms(2) show ?thesis by (simp add: jade_meta_juri_admin_def jade_rule_value_def)
next
  case (Some b)
  show ?thesis
    unfolding jade_meta_juri_admin_def jade_rule_value_def Some option.case
    using assms(1) by (intro map_of_dict_update_in) auto
qed

lemma jade_commun_values:
  assumes "(fld, key) \<in> set [(''ID'', ''id''), (''ANCIEN_ID'', ''ancien_id''),
      (''ORIGINE'', ''origine''), (''URL'', ''url''), (''NATURE'', ''nature'')]"
  shows "map_of (jade_metadata root) key = Some (jade_rule_value root ''META_COMMUN'' fld)"
proof -
  from assms have k: "key \<in> set [''id'', ''ancien_id'', ''origine'', ''url'', ''nature'']"
    by auto
  then have kk: "key \<in> set jade_keys" by (auto simp: jade_keys_def)
  from k have n1: "key \<notin> set [''formation'', ''type_recours'', ''publication_recueil'',
        ''president'', ''avocats'', ''rapporteur'', ''commissaire_gouvernement'']" by auto
  from k have n2: "key \<notin> set [''titre'', ''date_decision'', ''juridiction'', ''numero'']"
    by auto
  have "map_of (jade_metadata root) key = map_of (jade_meta_commun root jade_data) key"
    unfolding jade_metadata_def
    by (simp only: other_jade_meta_juri_admin [OF n1] other_jade_meta_juri [OF n2])
  also have "\<dots> = Some (jade_rule_value root ''META_COMMUN'' fld)"
    using assms map_of_jade_data [OF kk] by (rule value_jade_meta_commun)
  finally show ?thesis .
qed

lemma jade_juri_values:
  assumes "(fld, key) \<in> set [(''TITRE'', ''titre''), (''DATE_DEC'', ''date_decision''),
      (''JURIDICTION'', ''juridiction''), (''NUMERO'', ''numero'')]"
  shows "map_of (jade_metadata root) key = Some (jade_rule_value root ''META_JURI'' fld)"
proof -
  let ?d = "jade_meta_commun root jade_data"
  from assms have k: "key \<in> set [''titre'', ''date_decision'', ''juridiction'', ''numero'']"
    by auto
  then have kk: "key \<in> set jade_keys" by (auto simp: jade_keys_def)
  from k have n1: "key \<notin> set [''formation'', ''type_recours'', ''publication_recueil'',
        ''president'', ''avocats'', ''rapporteur'', ''commissaire_gouvernement'']" by auto
  from k have n2: "key \<notin> set [''id'', ''ancien_id'', ''origine'', ''url'', ''nature'']" by auto
  have d: "map_of ?d key = Some (Str [])"
    by (simp only: other_jade_meta_commun [OF n2] map_of_jade_data [OF kk])
  have "map_of (jade_metadata root) key = map_of (jade_meta_juri root ?d) key"
    unfolding jade_metadata_def by (simp only: other_jade_meta_juri_admin [OF n1])
  also have "\<dots> = Some (jade_rule_value root ''META_JURI'' fld)"
    using assms d by (rule value_jade_meta_juri)
  finally show ?thesis .
qed

lemma jade_admin_values:
  assumes "(fld, key) \<in> set [(''FORMATION'', ''formation''), (''TYPE_REC'', ''type_recours''),
      (''PUBLI_RECUEIL'', ''publication_recueil''), (''PRESIDENT'', ''president''),
      (''AVOCATS'', ''avocats''), (''RAPPORTEUR'', ''rapporteur''),
      (''COMMISSAIRE_GVT'', ''commissaire_gouvernement'')]"
  shows "map_of (jade_metadata root) key = Some (jade_rule_value root ''META_JURI_ADMIN'' fld)"
proof -
  let ?d = "jade_meta_juri root (jade_meta_commun root jade_data)"
  from assms have k: "key \<in> set [''formation'', ''type_recours'', ''publication_recueil'',
        ''president'', ''avocats'', ''rapporteur'', ''commissaire_gouvernement'']" by auto
  then have kk: "key \<in> set jade_keys" by (auto simp: jade_keys_def)
  from k have n1: "key \<notin> set [''titre'', ''date_decision'', ''juridiction'', ''numero'']"
    by auto
  from k have n2: "key \<notin> set [''id'', ''ancien_id'', ''origine'', ''url'', ''nature'']" by auto
  have d: "map_of ?d key = Some (Str [])"
    by (simp only: other_jade_meta_juri [OF n1] other_jade_meta_commun [OF n2]
        map_of_jade_data [OF kk])
  show ?thesis
    unfolding jade_metadata_def using assms d by (rule value_jade_meta_juri_admin)
qed

lemma jade_rules_all:
  "list_all (\<lambda>(blk, fld, key). map_of (jade_metadata root) key
      = Some (jade_rule_value root blk fld)) jade_rules"
  unfolding jade_rules_def list.pred_inject prod.case
  by (intro conjI;
      ((rule jade_commun_values jade_juri_values jade_admin_values, simp) | simp))

lemma jade_contenu_default: "map_of (jade_metadata root) ''contenu'' = Some (Str [])"
  unfolding jade_metadata_def
  by (simp add: other_jade_meta_juri_admin other_jade_meta_juri other_jade_meta_commun
      map_of_jade_data jade_keys_def)

lemma jade_metadata_truthy: "jade_metadata root \<noteq> []"
  using keys_jade_metadata [of root] by (auto simp: jade_keys_def)

text \<open>
  C9, as the spec states it, fails on a document whose only \<open>CONTENU\<close> element is the
  root: \<open>root.find('.//CONTENU')\<close> searches below the root, finds nothing, and the
  document is parsed and kept.
\<close>

theorem jade_contenu_dropped_counterexample:
  "el_tag contenu_root = ''CONTENU''
   \<and> jade_parse_xml_file \<lparr>path = ''c.xml'', content = WellFormed contenu_root\<rparr> =
       (Some [(''id'', Str []), (''ancien_id'', Str []), (''origine'', Str []),
              (''url'', Str []), (''nature'', Str []), (''titre'', Str []),
              (''date_decision'', Str []), (''juridiction'', Str []), (''numero'', Str []),
              (''formation'', Str []), (''type_recours'', Str []),
              (''publication_recueil'', Str []), (''president'', Str []), (''avocats'', Str []),
              (''rapporteur'', Str []), (''commissaire_gouvernement'', Str []),
              (''contenu'', Str [])], [])
   \<and> length (jade_results [\<lparr>path = ''c.xml'', content = WellFormed contenu_root\<rparr>]) = 1"
  by code_simp

text \<open>
  C9, amended. In JADE.py, a well-formed document with a \<open>CONTENU\<close> element below its
  root makes \<open>parse_xml_file\<close> return \<open>None\<close>: \<open>clean_text\<close> raises \<open>NameError\<close> (the
  module never imports \<open>re\<close>), the handler of the document reports it, and the document
  is missing from the results. Every other well-formed document is parsed into its
  record of the 17 declared keys, each metadata key holding the stripped text of its
  field and \<open>contenu\<close> the empty string, and that record is in the results.
\<close>

theorem jade_contenu_dropped:
  "(''CONTENU'' \<in> el_tag ` set (descendants root) \<longrightarrow>
      jade_parse_xml_file \<lparr>path = p, content = WellFormed root\<rparr>
        = (None, [ErrorParsing p NameError])
      \<and> jade_results (fs @ [\<lparr>path = p, content = WellFormed root\<rparr>] @ gs)
        = jade_results fs @ jade_results gs)
   \<and> (''CONTENU'' \<notin> el_tag ` set (descendants root) \<longrightarrow>
      jade_parse_xml_file \<lparr>path = p, content = WellFormed root\<rparr>
        = (Some (jade_metadata root), [])
      \<and> map fst (jade_metadata root) = jade_keys
      \<and> (\<forall>(blk, fld, key)\<in>set jade_rules.
            map_of (jade_metadata root) key = Some (jade_rule_value root blk fld))
      \<and> map_of (jade_metadata root) ''contenu'' = Some (Str [])
      \<and> jade_results (fs @ [\<lparr>path = p, content = WellFormed root\<rparr>] @ gs)
        = jade_results fs @ [jade_metadata root] @ jade_results gs)"
proof (intro conjI impI)
  let ?f = "\<lparr>path = p, content = WellFormed root\<rparr>"
  have split: "jade_results (fs @ [?f] @ gs) = jade_results fs @ jade_results [?f] @ jade_results gs"
    by (simp only: jade_results_def map_filter_append)
  {
    assume "''CONTENU'' \<in> el_tag ` set (descendants root)"
    then have c: "find_el root (Descendant ''CONTENU'') \<noteq> None"
      by (simp add: find_el_descendant_None)
    then show r: "jade_parse_xml_file ?f = (None, [ErrorParsing p NameError])"
      by (auto simp: jade_parse_xml_file_def jade_try_def ET_parse_def jade_clean_text_raises)
    have "jade_results [?f] = []"
      by (simp add: jade_results_def List.map_filter_def r)
    with split show "jade_results (fs @ [?f] @ gs) = jade_results fs @ jade_results gs"
      by simp
  }
  {
    assume "''CONTENU'' \<notin> el_tag ` set (descendants root)"
    then have c: "find_el root (Descendant ''CONTENU'') = None"
      by (simp add: find_el_descendant_None)
    then show r: "jade_parse_xml_file ?f = (Some (jade_metadata root), [])"
      by (simp add: jade_parse_xml_file_def jade_try_def ET_parse_def)
    have "jade_results [?f] = [jade_metadata root]"
      by (simp add: jade_results_def List.map_filter_def r jade_metadata_truthy)
    with split show "jade_results (fs @ [?f] @ gs)
        = jade_results fs @ [jade_metadata root] @ jade_results gs"
      by simp
  }
  show "map fst (jade_metadata root) = jade_keys" by (rule keys_jade_metadata)
  show "\<forall>(blk, fld, key)\<in>set jade_rules.
            map_of (jade_metadata root) key = Some (jade_rule_value root blk fld)"
    using jade_rules_all [of root] unfolding list_all_iff .
  show "map_of (jade_metadata root) ''contenu'' = Some (Str [])"
    by (rule jade_contenu_default)
qed

theorem jade_contenu_dropped_witness:
  "jade_parse_xml_file \<lparr>path = ''j1.xml'', content = WellFormed jade_root\<rparr>
     = (None, [ErrorParsing ''j1.xml'' NameError])
   \<and> jade_results ([] @ [\<lparr>path = ''j1.xml'', content = WellFormed jade_root\<rparr>] @ [])
     = jade_results [] @ jade_results []
   \<and> jade_parse_xml_file \<lparr>path = ''j2.xml'', content = WellFormed jade_bare_root\<rparr>
     = (Some (jade_metadata jade_bare_root), [])
   \<and> map fst (jade_metadata jade_bare_root) = jade_keys
   \<and> jade_results ([] @ [\<lparr>path = ''j2.xml'', content = WellFormed jade_bare_root\<rparr>] @ [])
     = jade_results [] @ [jade_metadata jade_bare_root] @ jade_results []"
proof -
  have a: "''CONTENU'' \<in> el_tag ` set (descendants jade_root)" by code_simp
  have b: "''CONTENU'' \<notin> el_tag ` set (descendants jade_bare_root)" by code_simp
  note t1 = jade_contenu_dropped [of jade_root "''j1.xml''" "[]" "[]", THEN conjunct1, THEN mp, OF a]
  note t2 = jade_contenu_dropped [of jade_bare_root "''j2.xml''" "[]" "[]", THEN conjunct2, THEN mp, OF b]
  from t1 t2 show ?thesis by (intro conjI) (elim conjE, assumption)+
qed

section \<open>The content text\<close>

lemma truthy_text_in_itertext:
  "d \<in> set (iter c) \<Longrightarrow> set (truthy_text (el_text d)) \<subseteq> set (itertext c)"
proof (induction c rule: iter.induct)
  case (1 t a x cs y)
  from "1.prems" consider "d = Element t a x cs y"
    | ch where "ch \<in> set cs" "d \<in> set (iter ch)" by auto
  then show ?case
  proof cases
    case 1
    then show ?thesis by simp
  next
    case 2
    with "1.IH" have "set (truthy_text (el_text d)) \<subseteq> set (itertext ch)" by blast
    with 2(1) show ?thesis by fastforce
  qed
qed

lemma strip_append_space:
  assumes "\<forall>ch\<in>set w. isspace ch"
  shows "strip (s @ w) = strip s"
proof (cases "\<forall>ch\<in>set s. isspace ch")
  case True
  with assms have "\<forall>ch\<in>set (s @ w). isspace ch" by auto
  then have "dropWhile isspace (s @ w) = []" by (simp only: dropWhile_eq_Nil_conv)
  moreover from True have "dropWhile isspace s = []" by (simp only: dropWhile_eq_Nil_conv)
  ultimately show ?thesis by (simp only: strip_def)
next
  case False
  then have "dropWhile isspace (s @ w) = dropWhile isspace s @ w"
    by (metis dropWhile_append1)
  moreover have "dropWhile isspace (rev w @ r) = dropWhile isspace r" for r
    by (rule dropWhile_append2) (use assms in auto)
  ultimately show ?thesis by (simp add: strip_def)
qed

lemma cnil_contenu_value:
  assumes "find_el root (Descendant ''CONTENU'') = Some c"
    and "\<forall>ch\<in>set (concat (truthy_text (el_tail c))). isspace ch"
  shows "map_of (cnil_contenu root d) ''contenu'' = Some (Str (strip (concat (itertext c))))"
  using assms
  by (simp add: cnil_contenu_def map_of_setitem tostring_text_def strip_append_space)

text \<open>
  C3, as the spec states it, fails on CNIL.py: the content is the text serialization of
  the element, only stripped. Inner whitespace runs and escape sequences stay as they
  are, so the value differs from the normalization of the concatenated text nodes.
\<close>

theorem contenu_text_counterexample:
  "find_el cnil_root (Descendant ''CONTENU'') = Some cnil_contenu_el
   \<and> parse_cnil_xml_file cnil_file =
       Inr [(''titrefull'', Str []), (''numero'', Str []), (''nature_delib'', Str []),
            (''date_texte'', Str []), (''date_publi'', Str []), (''etat_juridique'', Str []),
            (''contenu'', Str ''Article  1er a &lt; b'')]
   \<and> clean_text (concat (itertext cnil_contenu_el)) = ''Article 1er a < b''
   \<and> Str ''Article  1er a &lt; b'' \<noteq> Str (clean_text (concat (itertext cnil_contenu_el)))"
  by code_simp

text \<open>
  C3, amended. When \<open>root.find('.//CONTENU')\<close> finds an element, the record of CAPP.py
  maps \<open>contenu\<close> to \<open>clean_text\<close> of the concatenation of \<open>itertext()\<close>, which holds
  the text of every element below the content element, not only the first; the record
  of a document that CNIL.py parses maps \<open>contenu\<close> to that concatenation merely
  stripped, provided the tail text behind the content element is empty or whitespace.
\<close>

theorem contenu_text:
  "(find_el root (Descendant ''CONTENU'') = Some c \<longrightarrow>
      map_of (capp_extract root) ''contenu'' = Some (Str (clean_text (concat (itertext c))))
      \<and> (\<forall>d\<in>set (iter c). set (truthy_text (el_text d)) \<subseteq> set (itertext c)))
   \<and> (parse_cnil_xml_file g = Inr r \<and> content g = WellFormed root
        \<and> find_el root (Descendant ''CONTENU'') = Some c
        \<and> (\<forall>ch\<in>set (concat (truthy_text (el_tail c))). isspace ch) \<longrightarrow>
      map_of r ''contenu'' = Some (Str (strip (concat (itertext c)))))"
proof (intro conjI impI)
  assume "find_el root (Descendant ''CONTENU'') = Some c"
  then show "map_of (capp_extract root) ''contenu''
      = Some (Str (clean_text (concat (itertext c))))"
    by (simp add: capp_full_text_values)
  show "\<forall>d\<in>set (iter c). set (truthy_text (el_text d)) \<subseteq> set (itertext c)"
    using truthy_text_in_itertext by blast
next
  assume a: "parse_cnil_xml_file g = Inr r \<and> content g = WellFormed root
        \<and> find_el root (Descendant ''CONTENU'') = Some c
        \<and> (\<forall>ch\<in>set (concat (truthy_text (el_tail c))). isspace ch)"
  then obtain root' meta where "content g = WellFormed root'"
    and "r = cnil_contenu root' (cnil_fields meta [''TITREFULL'', ''NUMERO'',
            ''NATURE_DELIB'', ''DATE_TEXTE'', ''DATE_PUBLI'', ''ETAT_JURIDIQUE'']
            (cnil_meta_commun root' []))"
    unfolding parse_cnil_Inr by blast
  with a have r: "r = cnil_contenu root (cnil_fields meta [''TITREFULL'', ''NUMERO'',
            ''NATURE_DELIB'', ''DATE_TEXTE'', ''DATE_PUBLI'', ''ETAT_JURIDIQUE'']
            (cnil_meta_commun root []))"
    by simp
  from a show "map_of r ''contenu'' = Some (Str (strip (concat (itertext c))))"
    unfolding r by (intro cnil_contenu_value) simp_all
qed

theorem contenu_text_witness:
  "map_of (capp_extract capp_root) ''contenu'' = Some (Str ''Vu la loi du 1er & 2'')
   \<and> map_of [(''titrefull'', Str []), (''numero'', Str []), (''nature_delib'', Str []),
            (''date_texte'', Str []), (''date_publi'', Str []), (''etat_juridique'', Str []),
            (''contenu'', Str ''Article  1er a &lt; b'')] ''contenu''
       = Some (Str (strip (concat (itertext cnil_contenu_el))))"
proof -
  have a: "find_el capp_root (Descendant ''CONTENU'') = Some (Element ''CONTENU'' [] (Some ''Vu  '')
        [Element ''b'' [] (Some ''la loi'') [Element ''br'' [] None [] (Some '' du'')]
           (Some '' 1er &amp; 2'')] None)"
    by code_simp
  have v: "clean_text (concat (itertext (Element ''CONTENU'' [] (Some ''Vu  '')
        [Element ''b'' [] (Some ''la loi'') [Element ''br'' [] None [] (Some '' du'')]
           (Some '' 1er &amp; 2'')] None))) = ''Vu la loi du 1er & 2''"
    by code_simp
  have b: "parse_cnil_xml_file cnil_file =
       Inr [(''titrefull'', Str []), (''numero'', Str []), (''nature_delib'', Str []),
            (''date_texte'', Str []), (''date_publi'', Str []), (''etat_juridique'', Str []),
            (''contenu'', Str ''Article  1er a &lt; b'')]
     \<and> content cnil_file = WellFormed cnil_root
     \<and> find_el cnil_root (Descendant ''CONTENU'') = Some cnil_contenu_el"
    by code_simp
  have w: "\<forall>ch\<in>set (concat (truthy_text (el_tail cnil_contenu_el))). isspace ch"
    by (simp add: cnil_contenu_el_def isspace_def)
  from a v contenu_text [of capp_root "Element ''CONTENU'' [] (Some ''Vu  '')
        [Element ''b'' [] (Some ''la loi'') [Element ''br'' [] None [] (Some '' du'')]
           (Some '' 1er &amp; 2'')] None"]
  have "map_of (capp_extract capp_root) ''contenu'' = Some (Str ''Vu la loi du 1er & 2'')"
    by simp
  moreover from b w contenu_text [of cnil_root cnil_contenu_el cnil_file
      "[(''titrefull'', Str []), (''numero'', Str []), (''nature_delib'', Str []),
            (''date_texte'', Str []), (''date_publi'', Str []), (''etat_juridique'', Str []),
            (''contenu'', Str ''Article  1er a &lt; b'')]"]
  have "map_of [(''titrefull'', Str []), (''numero'', Str []), (''nature_delib'', Str []),
            (''date_texte'', Str []), (''date_publi'', Str []), (''etat_juridique'', Str []),
            (''contenu'', Str ''Article  1er a &lt; b'')] ''contenu''
       = Some (Str (strip (concat (itertext cnil_contenu_el))))"
    by blast
  ultimately show ?thesis by blast
qed

section \<open>Block lookup in INCA.py\<close>












section \<open>The batch sink and the corpus run\<close>

lemma capp_parsed_snoc: "capp_parsed (fs @ [f]) = capp_parsed fs @ capp_record f"
  by (auto simp: capp_parsed_def capp_record_def List.map_filter_def split: option.splits)

lemma capp_step_skip:
  "capp_record f = [] \<Longrightarrow>
     capp_step b io st f = st\<lparr>log := log st @ snd (capp_parse_xml_file f)\<rparr>"
  by (auto simp: capp_step_def capp_record_def Let_def split: option.splits if_splits)

lemma capp_step_keep:
  "capp_record f = [d] \<Longrightarrow> \<not> b \<le> Suc (length (batch_data st)) \<Longrightarrow>
     capp_step b io st f = st\<lparr>log := log st @ snd (capp_parse_xml_file f),
       batch_data := batch_data st @ [d], total_processed := total_processed st + 1\<rparr>"
  by (auto simp: capp_step_def capp_record_def Let_def split: option.splits if_splits)

lemma capp_step_flush:
  "capp_record f = [d] \<Longrightarrow> b \<le> Suc (length (batch_data st)) \<Longrightarrow>
     capp_step b io st f =
       (write_batch_to_jsonl io (batch_data st @ [d])
          (st\<lparr>log := log st @ snd (capp_parse_xml_file f),
              batch_data := batch_data st @ [d], total_processed := total_processed st + 1\<rparr>))
       \<lparr>batch_data := [],
        log := log (write_batch_to_jsonl io (batch_data st @ [d])
          (st\<lparr>log := log st @ snd (capp_parse_xml_file f),
              batch_data := batch_data st @ [d], total_processed := total_processed st + 1\<rparr>))
          @ [InfoProcessed (Suc (total_processed st))]\<rparr>"
  by (auto simp: capp_step_def capp_record_def Let_def write_batch_to_jsonl_def
      split: option.splits if_splits)

lemma capp_record_cases: "capp_record f = [] \<or> (\<exists>d. capp_record f = [d])"
  by (simp add: capp_record_def split: option.splits)

lemma write_calls_write:
  "write_calls (write_batch_to_jsonl io batch st) = write_calls st @ [batch]"
  by (simp add: write_batch_to_jsonl_def)

lemma batch_data_write: "batch_data (write_batch_to_jsonl io batch st) = batch_data st"
  by (simp add: write_batch_to_jsonl_def)

lemma out_file_write:
  "out_file (write_batch_to_jsonl io batch st)
     = (if io (length (write_calls st)) then out_file st @ batch else out_file st)"
  by (simp add: write_batch_to_jsonl_def)

lemma log_write: "set (log st) \<subseteq> set (log (write_batch_to_jsonl io batch st))"
  by (auto simp: write_batch_to_jsonl_def)

lemma all_ok_snoc:
  "(\<forall>n<length (xs @ [x]). io n) \<longleftrightarrow> (\<forall>n<length xs. io n) \<and> io (length xs)"
  by (auto simp: less_Suc_eq)

lemma sink_inv_flush:
  assumes a: "concat (write_calls st) @ batch = recs"
    and b: "0 < b \<longrightarrow> (\<forall>c\<in>set (write_calls st). length c = b) \<and> length batch = b"
    and c: "(\<forall>n<length (write_calls st). io n) \<longrightarrow> out_file st = concat (write_calls st)"
  shows "sink_inv b io recs ((write_batch_to_jsonl io batch st)\<lparr>batch_data := [], log := l\<rparr>)"
proof -
  let ?w = "write_batch_to_jsonl io batch st"
  have 1: "concat (write_calls ?w) @ [] = recs"
    using a by (simp add: write_calls_write)
  have 2: "0 < b \<longrightarrow> (\<forall>c\<in>set (write_calls ?w). length c = b) \<and> length ([] :: dict list) < b"
    using b by (simp add: write_calls_write)
  have 3: "(\<forall>n<length (write_calls ?w). io n) \<longrightarrow> out_file ?w = concat (write_calls ?w)"
    unfolding write_calls_write all_ok_snoc out_file_write using c by simp
  from 1 2 3 show ?thesis by (simp add: sink_inv_def)
qed


lemma sink_inv_step:
  assumes "sink_inv b io recs st"
  shows "sink_inv b io (recs @ capp_record f) (capp_step b io st f)"
proof -
  from capp_record_cases [of f] consider "capp_record f = []"
    | d where "capp_record f = [d]" "\<not> b \<le> Suc (length (batch_data st))"
    | d where "capp_record f = [d]" "b \<le> Suc (length (batch_data st))"
    by blast
  then show ?thesis
  proof cases
    case 1
    with assms show ?thesis by (simp add: capp_step_skip sink_inv_def)
  next
    case 2
    with assms show ?thesis by (simp add: capp_step_keep sink_inv_def)
  next
    case 3
    let ?st2 = "st\<lparr>log := log st @ snd (capp_parse_xml_file f),
              batch_data := batch_data st @ [d], total_processed := total_processed st + 1\<rparr>"
    have a: "concat (write_calls ?st2) @ (batch_data st @ [d]) = recs @ capp_record f"
      using assms 3(1) by (simp add: sink_inv_def)
    have b: "0 < b \<longrightarrow> (\<forall>c\<in>set (write_calls ?st2). length c = b)
        \<and> length (batch_data st @ [d]) = b"
      using assms 3(2) by (auto simp: sink_inv_def)
    have c: "(\<forall>n<length (write_calls ?st2). io n) \<longrightarrow> out_file ?st2 = concat (write_calls ?st2)"
      using assms by (simp add: sink_inv_def)
    show ?thesis
      unfolding capp_step_flush [OF 3] by (rule sink_inv_flush [OF a b c])
  qed
qed

lemma sink_inv_start: "sink_inv b io [] start_state"
  by (simp add: sink_inv_def start_state_def)

lemma sink_inv_loop:
  "sink_inv b io (capp_parsed fs) (foldl (capp_step b io) start_state fs)"
proof (induction fs rule: rev_induct)
  case Nil
  then show ?case by (simp add: sink_inv_start capp_parsed_def List.map_filter_def)
next
  case (snoc f fs)
  then show ?case by (simp add: capp_parsed_snoc sink_inv_step)
qed

lemma capp_main_file:
  assumes "\<forall>n. io n"
  shows "out_file (capp_main b io fs) = capp_parsed fs"
proof -
  let ?st = "foldl (capp_step b io) start_state fs"
  have "sink_inv b io (capp_parsed fs) ?st" by (rule sink_inv_loop)
  with assms have rec: "concat (write_calls ?st) @ batch_data ?st = capp_parsed fs"
    and out: "out_file ?st = concat (write_calls ?st)"
    by (simp_all add: sink_inv_def)
  show ?thesis
  proof (cases "batch_data ?st = []")
    case True
    with rec out show ?thesis by (simp add: capp_main_def Let_def)
  next
    case False
    with rec out assms show ?thesis by (simp add: capp_main_def Let_def out_file_write)
  qed
qed

lemma length_concat_uniform:
  "\<forall>c\<in>set xs. length c = b \<Longrightarrow> length (concat xs) = b * length xs"
  by (induction xs) simp_all

lemma capp_main_batches:
  assumes "length (capp_parsed fs) = 5"
  shows "map length (write_calls (capp_main 2 io fs)) = [2, 2, 1]"
    and "(\<forall>n<3. io n) \<Longrightarrow> out_file (capp_main 2 io fs) = capp_parsed fs"
proof -
  let ?st = "foldl (capp_step 2 io) start_state fs"
  have inv: "sink_inv 2 io (capp_parsed fs) ?st" by (rule sink_inv_loop)
  then have rec: "concat (write_calls ?st) @ batch_data ?st = capp_parsed fs"
    and full: "\<forall>c\<in>set (write_calls ?st). length c = 2"
    and part: "length (batch_data ?st) < 2"
    and out: "(\<forall>n<length (write_calls ?st). io n) \<longrightarrow> out_file ?st = concat (write_calls ?st)"
    by (simp_all add: sink_inv_def)
  from rec have "length (concat (write_calls ?st)) + length (batch_data ?st) = 5"
    using assms by (metis length_append)
  then have "2 * length (write_calls ?st) + length (batch_data ?st) = 5"
    using length_concat_uniform [OF full] by simp
  with part have n: "length (write_calls ?st) = 2" and m: "length (batch_data ?st) = 1"
    by arith+
  from n obtain c1 c2 where w: "write_calls ?st = [c1, c2]"
    by (auto simp: length_Suc_conv numeral_2_eq_2)
  with full have sizes: "map length (write_calls ?st) = [2, 2]" by simp
  from m have ne: "batch_data ?st \<noteq> []" by auto
  then have main: "capp_main 2 io fs = write_batch_to_jsonl io (batch_data ?st) ?st"
    by (simp add: capp_main_def Let_def)
  show "map length (write_calls (capp_main 2 io fs)) = [2, 2, 1]"
    unfolding main write_calls_write using sizes m by simp
  show "out_file (capp_main 2 io fs) = capp_parsed fs" if ok: "\<forall>n<3. io n"
  proof -
    from ok n have "\<forall>n<length (write_calls ?st). io n" by simp
    with out have "out_file ?st = concat (write_calls ?st)" by blast
    moreover from ok n have "io (length (write_calls ?st))" by simp
    ultimately show ?thesis unfolding main out_file_write using rec by simp
  qed
qed

lemma capp_record_failed: "capp_try (content f) = Inl e \<Longrightarrow> capp_record f = []"
  by (simp add: capp_record_def capp_parse_xml_file_def)

lemma log_step_mono: "set (log st) \<subseteq> set (log (capp_step b io st f))"
proof -
  from capp_record_cases [of f] consider "capp_record f = []"
    | d where "capp_record f = [d]" "\<not> b \<le> Suc (length (batch_data st))"
    | d where "capp_record f = [d]" "b \<le> Suc (length (batch_data st))"
    by blast
  then show ?thesis
  proof cases
    case 1
    then show ?thesis by (auto simp: capp_step_skip)
  next
    case 2
    then show ?thesis by (auto simp: capp_step_keep)
  next
    case 3
    let ?st2 = "st\<lparr>log := log st @ snd (capp_parse_xml_file f),
              batch_data := batch_data st @ [d], total_processed := total_processed st + 1\<rparr>"
    have "set (log st) \<subseteq> set (log ?st2)" by auto
    also have "\<dots> \<subseteq> set (log (write_batch_to_jsonl io (batch_data st @ [d]) ?st2))"
      by (rule log_write)
    finally show ?thesis unfolding capp_step_flush [OF 3] by auto
  qed
qed

lemma log_step_error:
  assumes "capp_try (content f) = Inl e"
  shows "ErrorParsing (path f) e \<in> set (log (capp_step b io st f))"
  using assms
  by (simp add: capp_step_skip [OF capp_record_failed [OF assms]] capp_parse_xml_file_def)

lemma log_loop_error:
  "f \<in> set fs \<Longrightarrow> capp_try (content f) = Inl e
   \<Longrightarrow> ErrorParsing (path f) e \<in> set (log (foldl (capp_step b io) st fs))"
proof (induction fs rule: rev_induct)
  case Nil
  then show ?case by simp
next
  case (snoc x xs)
  show ?case
  proof (cases "f = x")
    case True
    with snoc.prems(2) show ?thesis by (simp add: log_step_error)
  next
    case False
    with snoc have "ErrorParsing (path f) e \<in> set (log (foldl (capp_step b io) st xs))"
      by simp
    then show ?thesis using log_step_mono by fastforce
  qed
qed

lemma log_main_error:
  assumes "f \<in> set fs" and "capp_try (content f) = Inl e"
  shows "ErrorParsing (path f) e \<in> set (log (capp_main b io fs))"
proof -
  let ?st = "foldl (capp_step b io) start_state fs"
  from assms have "ErrorParsing (path f) e \<in> set (log ?st)" by (rule log_loop_error)
  then show ?thesis using log_write [of ?st io "batch_data ?st"]
    by (auto simp: capp_main_def Let_def)
qed

lemma cnil_loop_abort:
  "\<forall>g\<in>set fs. \<exists>d. parse_cnil_xml_file g = Inr d \<Longrightarrow> parse_cnil_xml_file f = Inl e
   \<Longrightarrow> cnil_loop (fs @ f # gs) acc = Inl e"
  by (induction fs arbitrary: acc) auto

text \<open>
  C2, as the spec states it, fails on CNIL.py: \<open>parse_cnil_xml_file\<close> catches the
  exception only to raise another one, and the loop of \<open>tar_dila_data\<close> calls it outside
  any \<open>try\<close>. One malformed document ends the run, and the documents behind it are
  never parsed.
\<close>

theorem parse_failure_counterexample:
  "parse_cnil_xml_file bad_file = Inl ValueError
   \<and> tar_dila_data [cnil_bare] =
       Inr [[(''titrefull'', Str []), (''numero'', Str ''2020-001''), (''nature_delib'', Str []),
             (''date_texte'', Str []), (''date_publi'', Str []), (''etat_juridique'', Str [])]]
   \<and> tar_dila_data [bad_file, cnil_bare] = Inl ValueError"
  by code_simp

text \<open>
  C2, amended. In CAPP.py every exception raised while a document is parsed is caught in
  \<open>parse_xml_file\<close>, which logs it and returns \<open>None\<close>; the error is in the log of the
  run, the loop goes on, and (when the writes succeed) the output file holds the record
  of every document that parses, whatever failed before it. In CNIL.py the parser raises
  \<open>ValueError\<close> for malformed XML and \<open>RuntimeError\<close> for any other exception, and the
  first document that fails ends the run with that exception.
\<close>

theorem parse_failure_contained:
  "(capp_try (content f) = Inl e \<longrightarrow>
      capp_parse_xml_file f = (None, [ErrorParsing (path f) e]))
   \<and> (f \<in> set xml_files \<and> capp_try (content f) = Inl e \<longrightarrow>
      ErrorParsing (path f) e \<in> set (log (capp_main batch_size io_ok xml_files)))
   \<and> ((\<forall>n. io_ok n) \<longrightarrow> out_file (capp_main batch_size io_ok xml_files) = capp_parsed xml_files)
   \<and> (cnil_try (content f) = Inl e \<longrightarrow>
      parse_cnil_xml_file f = Inl (if e = ParseError then ValueError else RuntimeError))
   \<and> (parse_cnil_xml_file f = Inl e' \<and> (\<forall>g\<in>set fs. \<exists>d. parse_cnil_xml_file g = Inr d) \<longrightarrow>
      tar_dila_data (fs @ f # gs) = Inl e')"
proof (intro conjI impI)
  assume "capp_try (content f) = Inl e"
  then show "capp_parse_xml_file f = (None, [ErrorParsing (path f) e])"
    by (simp add: capp_parse_xml_file_def)
next
  assume "f \<in> set xml_files \<and> capp_try (content f) = Inl e"
  then show "ErrorParsing (path f) e \<in> set (log (capp_main batch_size io_ok xml_files))"
    using log_main_error by blast
next
  assume "\<forall>n. io_ok n"
  then show "out_file (capp_main batch_size io_ok xml_files) = capp_parsed xml_files"
    by (rule capp_main_file)
next
  assume "cnil_try (content f) = Inl e"
  then show "parse_cnil_xml_file f = Inl (if e = ParseError then ValueError else RuntimeError)"
    by (simp add: parse_cnil_xml_file_def)
next
  assume "parse_cnil_xml_file f = Inl e' \<and> (\<forall>g\<in>set fs. \<exists>d. parse_cnil_xml_file g = Inr d)"
  then show "tar_dila_data (fs @ f # gs) = Inl e'"
    unfolding tar_dila_data_def using cnil_loop_abort by blast
qed

theorem parse_failure_contained_witness:
  "capp_parse_xml_file bad_file = (None, [ErrorParsing (path bad_file) ParseError])
   \<and> ErrorParsing (path bad_file) ParseError
       \<in> set (log (capp_main 2 (\<lambda>n. True) [capp_file, bad_file, capp_file]))
   \<and> out_file (capp_main 2 (\<lambda>n. True) [capp_file, bad_file, capp_file])
       = capp_parsed [capp_file, bad_file, capp_file]
   \<and> parse_cnil_xml_file bad_file = Inl ValueError
   \<and> tar_dila_data ([cnil_bare] @ bad_file # [cnil_file]) = Inl ValueError"
proof -
  have a: "capp_try (content bad_file) = Inl ParseError" by code_simp
  have b: "bad_file \<in> set [capp_file, bad_file, capp_file]" by simp
  have c: "cnil_try (content bad_file) = Inl ParseError" by code_simp
  have d: "parse_cnil_xml_file bad_file = Inl ValueError" by code_simp
  have "parse_cnil_xml_file cnil_bare =
       Inr [(''titrefull'', Str []), (''numero'', Str ''2020-001''), (''nature_delib'', Str []),
            (''date_texte'', Str []), (''date_publi'', Str []), (''etat_juridique'', Str [])]"
    by code_simp
  then have g: "\<forall>g\<in>set [cnil_bare]. \<exists>d. parse_cnil_xml_file g = Inr d" by simp
  from a b c d g parse_failure_contained [of bad_file ParseError
      "[capp_file, bad_file, capp_file]" 2 "\<lambda>n. True" ValueError "[cnil_bare]" "[cnil_file]"]
  show ?thesis by simp
qed

text \<open>
  C8. With batch size 2 and exactly five documents that parse, the loop hands three
  batches to \<open>write_batch_to_jsonl\<close>, of sizes 2, 2 and 1 in that order: a full buffer is
  written at once and the partial batch left at the end is written too. When the three
  writes succeed, the output file holds the five records, one line each.
\<close>

theorem batch_boundary:
  "length (capp_parsed xml_files) = 5 \<longrightarrow>
     map length (write_calls (capp_main 2 io_ok xml_files)) = [2, 2, 1]
     \<and> ((\<forall>n<3. io_ok n) \<longrightarrow>
          out_file (capp_main 2 io_ok xml_files) = capp_parsed xml_files
          \<and> length (out_file (capp_main 2 io_ok xml_files)) = 5)"
  using capp_main_batches [of xml_files io_ok] by simp

theorem batch_boundary_witness:
  "length (capp_parsed [capp_file, capp_file, bad_file, capp_file, capp_file, capp_file]) = 5
   \<and> map length (write_calls (capp_main 2 (\<lambda>n. True)
        [capp_file, capp_file, bad_file, capp_file, capp_file, capp_file])) = [2, 2, 1]
   \<and> length (out_file (capp_main 2 (\<lambda>n. True)
        [capp_file, capp_file, bad_file, capp_file, capp_file, capp_file])) = 5"
proof -
  have h: "length (capp_parsed [capp_file, capp_file, bad_file, capp_file, capp_file,
      capp_file]) = 5"
    by code_simp
  from h batch_boundary [of "[capp_file, capp_file, bad_file, capp_file, capp_file, capp_file]"
      "\<lambda>n. True"]
  show ?thesis by simp
qed

end
